theory Spec2Isabelle
  imports Main "HOL-Library.Word"
begin

unbundle bit_operations_syntax

section \<open>The CCPv5 device model (psp-dev-ccp-v5.c)\<close>

subsection \<open>Machine types\<close>

text \<open>
  \<open>CCPADDR\<close> is \<open>uint64_t\<close>; \<open>size_t\<close> is taken as the 64-bit type of the hosts the
  emulator is built for. Both wrap around. Buffers are byte lists; a C pair of a
  pointer and a byte count that is passed to a writer is the list of exactly those bytes.
\<close>

type_synonym u8 = "8 word"
type_synonym u16 = "16 word"
type_synonym u32 = "32 word"
type_synonym CCPADDR = "64 word"
type_synonym size_t = "64 word"

subsection \<open>Observable effects\<close>

text \<open>
  \<open>printf\<close> output and calls of the interrupt callback \<open>pfnIrqSet(idPrio, idDev, fAssert)\<close>
  leave the device; they are recorded, in order, in the event list of the instance.
\<close>

datatype log_msg =
    InvalidLsbRead u32 size_t
  | InvalidLsbWrite u32 size_t
  | ReqReadFailed u32 int
  | UnsupportedAccessWidth u32 size_t
  | InvalidQueue u32 size_t u32

datatype ccp_event =
    EvPrintf log_msg
  | EvIrqSet nat nat bool

subsection \<open>Device state\<close>

record CCPQUEUE =
  u32RegCtrl :: u32
  u32RegReqTail :: u32
  u32RegReqHead :: u32
  u32RegSts :: u32
  u32RegIen :: u32
  u32RegIsts :: u32
  fEnabled :: bool

datatype sha_md = EVP_sha256 | EVP_sha384

text \<open>
  \<open>PSPDEVCCP\<close>. The two arrays (\<open>aQueues[2]\<close> and the 4096 bytes of the local storage
  buffer in its contiguous view \<open>u.abLsb\<close>) are functions from the index; the code checks
  every index before it uses it, and the model keeps those checks. \<open>hIoMgr\<close> is the state
  behind the I/O manager handle, \<open>pOsslShaCtx\<close> is the streaming digest context (its
  algorithm and the bytes fed to it so far, \<open>None\<close> for the null pointer), and \<open>engx\<close>
  holds the state of the engines that are not modelled (\<open>pOsslAesCtx\<close>, \<open>Zlib\<close>).
\<close>

record ('io, 'x) PSPDEVCCP =
  hIoMgr :: 'io
  aQueues :: "nat \<Rightarrow> CCPQUEUE"
  Lsb :: "nat \<Rightarrow> u8"
  pOsslShaCtx :: "(sha_md \<times> u8 list) option"
  engx :: 'x
  cbWrittenLast :: size_t
  evts :: "ccp_event list"

subsection \<open>Local storage buffer access\<close>

definition memcpy_from :: "(nat \<Rightarrow> u8) \<Rightarrow> nat \<Rightarrow> nat \<Rightarrow> u8 list" where
  "memcpy_from arr off n = map (\<lambda>i. arr (off + i)) [0..<n]"

definition memcpy_to :: "(nat \<Rightarrow> u8) \<Rightarrow> nat \<Rightarrow> u8 list \<Rightarrow> (nat \<Rightarrow> u8)" where
  "memcpy_to arr off src = (\<lambda>i. if off \<le> i \<and> i < off + length src then src ! (i - off) else arr i)"

definition pspDevCcpXferMemLsbRead ::
  "('io, 'x) PSPDEVCCP \<Rightarrow> CCPADDR \<Rightarrow> size_t \<Rightarrow> int \<times> u8 list \<times> ('io, 'x) PSPDEVCCP" where
  "pspDevCcpXferMemLsbRead pThis CcpAddr cbRead =
     (if CcpAddr < 4096 \<and> CcpAddr + cbRead \<le> 4096
      then (0, memcpy_from (Lsb pThis) (unat CcpAddr) (unat cbRead), pThis)
      else (-1, [], pThis\<lparr>evts := evts pThis @ [EvPrintf (InvalidLsbRead (ucast CcpAddr) cbRead)]\<rparr>))"

definition pspDevCcpXferMemLsbWrite ::
  "('io, 'x) PSPDEVCCP \<Rightarrow> CCPADDR \<Rightarrow> u8 list \<Rightarrow> int \<times> ('io, 'x) PSPDEVCCP" where
  "pspDevCcpXferMemLsbWrite pThis CcpAddr pvSrc =
     (let cbWrite = (of_nat (length pvSrc) :: size_t) in
      if CcpAddr < 4096 \<and> CcpAddr + cbWrite \<le> 4096
      then (0, pThis\<lparr>Lsb := memcpy_to (Lsb pThis) (unat CcpAddr) pvSrc\<rparr>)
      else (-1, pThis\<lparr>evts := evts pThis @ [EvPrintf (InvalidLsbWrite (ucast CcpAddr) cbWrite)]\<rparr>))"

subsection \<open>The register and descriptor layout (psp/ccp.h)\<close>

text \<open>
  The header \<open>psp/ccp.h\<close> is not among the sources. Its constants and field-extraction
  macros are a parameter of the model: every function that uses one takes the header as
  its argument \<open>h\<close>, and the properties hold for every header (the constants that label
  the cases of one \<open>switch\<close> have to differ, as C demands).
\<close>

record ccp_hdr =
  CCP_V5_Q_OFFSET :: u32
  CCP_V5_Q_SIZE :: u32
  CCP_V5_Q_REG_CTRL :: u32
  CCP_V5_Q_REG_HEAD :: u32
  CCP_V5_Q_REG_TAIL :: u32
  CCP_V5_Q_REG_STATUS :: u32
  CCP_V5_Q_REG_IEN :: u32
  CCP_V5_Q_REG_ISTS :: u32
  CCP_V5_Q_REG_CTRL_RUN :: u32
  CCP_V5_Q_REG_CTRL_HALT :: u32
  CCP_V5_Q_REG_STATUS_SUCCESS :: u32
  CCP_V5_Q_REG_STATUS_ERROR :: u32
  CCP_V5_Q_REG_ISTS_COMPLETION :: u32
  CCP_V5_Q_REG_ISTS_ERROR :: u32
  CCP_V5_Q_REG_ISTS_Q_STOP :: u32
  CCP_V5_Q_REG_ISTS_Q_EMPTY :: u32
  CCP_V5_MEM_TYPE_GET :: "u16 \<Rightarrow> u16"
  CCP_V5_MEM_TYPE_SYSTEM :: u16
  CCP_V5_MEM_TYPE_SB :: u16
  CCP_V5_MEM_TYPE_LOCAL :: u16
  CCP_V5_MEM_LSB_CTX_ID_GET :: "u16 \<Rightarrow> u8"
  CCP_V5_ENGINE_GET :: "u32 \<Rightarrow> u32"
  CCP_V5_ENGINE_FUNC_GET :: "u32 \<Rightarrow> u32"
  CCP_V5_ENGINE_INIT_GET :: "u32 \<Rightarrow> bool"
  CCP_V5_ENGINE_EOM_GET :: "u32 \<Rightarrow> bool"
  CCP_V5_ENGINE_AES :: u32
  CCP_V5_ENGINE_XTS_AES128 :: u32
  CCP_V5_ENGINE_DES3 :: u32
  CCP_V5_ENGINE_SHA :: u32
  CCP_V5_ENGINE_RSA :: u32
  CCP_V5_ENGINE_PASSTHRU :: u32
  CCP_V5_ENGINE_ZLIB_DECOMP :: u32
  CCP_V5_ENGINE_ECC :: u32
  CCP_V5_ENGINE_PASSTHRU_BYTESWAP_GET :: "u32 \<Rightarrow> u8"
  CCP_V5_ENGINE_PASSTHRU_BITWISE_GET :: "u32 \<Rightarrow> u8"
  CCP_V5_ENGINE_PASSTHRU_REFLECT_GET :: "u32 \<Rightarrow> u8"
  CCP_V5_ENGINE_PASSTHRU_BYTESWAP_NOOP :: u8
  CCP_V5_ENGINE_PASSTHRU_BYTESWAP_256BIT :: u8
  CCP_V5_ENGINE_PASSTHRU_BITWISE_NOOP :: u8
  CCP_V5_ENGINE_SHA_TYPE_GET :: "u32 \<Rightarrow> u32"
  CCP_V5_ENGINE_SHA_TYPE_256 :: u32
  CCP_V5_ENGINE_SHA_TYPE_384 :: u32
  CCP_V5_ENGINE_RSA_SZ_GET :: "u32 \<Rightarrow> u16"
  CCP_V5_ENGINE_RSA_MODE_GET :: "u32 \<Rightarrow> u8"

text \<open>
  \<open>CCP5REQ\<close>, the 32-byte request descriptor. The fields \<open>u32AddrDstLow\<close>,
  \<open>u16AddrDstHigh\<close> and \<open>u16DstMemType\<close> are the view \<open>Op.NonSha\<close> of the union; its other
  view \<open>Op.Sha\<close> (the message length in bits) is only printed by the code.
\<close>

record CCP5REQ =
  u32Dw0 :: u32
  cbSrc :: u32
  u32AddrSrcLow :: u32
  u16AddrSrcHigh :: u16
  u16SrcMemType :: u16
  u32AddrDstLow :: u32
  u16AddrDstHigh :: u16
  u16DstMemType :: u16
  u32AddrKeyLow :: u32
  u16AddrKeyHigh :: u16
  u16KeyMemType :: u16

definition le16 :: "u8 list \<Rightarrow> nat \<Rightarrow> u16" where
  "le16 bs i = ucast (bs ! i) OR push_bit 8 (ucast (bs ! (i + 1)))"

definition le32 :: "u8 list \<Rightarrow> nat \<Rightarrow> u32" where
  "le32 bs i = ucast (bs ! i) OR push_bit 8 (ucast (bs ! (i + 1)))
     OR push_bit 16 (ucast (bs ! (i + 2))) OR push_bit 24 (ucast (bs ! (i + 3)))"

definition le32_bytes :: "u32 \<Rightarrow> u8 list" where
  "le32_bytes v = [ucast v, ucast (drop_bit 8 v), ucast (drop_bit 16 v), ucast (drop_bit 24 v)]"

definition req_of_bytes :: "u8 list \<Rightarrow> CCP5REQ" where
  \<comment> \<open>Modelled from the spec: the layout of \<open>CCP5REQ\<close>, declared in \<open>psp/ccp.h\<close>: dword 0,
      the source byte count, the source address (low, high) and memory type, the
      destination address (low, high) and memory type, the key address (low, high) and
      memory type, little-endian, 32 bytes in all.\<close>
  "req_of_bytes bs =
     \<lparr>u32Dw0 = le32 bs 0, cbSrc = le32 bs 4, u32AddrSrcLow = le32 bs 8,
      u16AddrSrcHigh = le16 bs 12, u16SrcMemType = le16 bs 14,
      u32AddrDstLow = le32 bs 16, u16AddrDstHigh = le16 bs 20, u16DstMemType = le16 bs 22,
      u32AddrKeyLow = le32 bs 24, u16AddrKeyHigh = le16 bs 28, u16KeyMemType = le16 bs 30\<rparr>"

subsection \<open>The I/O manager\<close>

text \<open>
  \<open>PSPEmuIoMgrPspAddrRead\<close> and \<open>PSPEmuIoMgrPspAddrWrite\<close> belong to the emulator shell.
  They are a parameter: a read takes the state behind the handle, a PSP address and a
  byte count and gives a status, the bytes and the new state; a write takes the bytes.
\<close>

record 'io iomgr =
  PSPEmuIoMgrPspAddrRead :: "'io \<Rightarrow> u32 \<Rightarrow> size_t \<Rightarrow> int \<times> u8 list \<times> 'io"
  PSPEmuIoMgrPspAddrWrite :: "'io \<Rightarrow> u32 \<Rightarrow> u8 list \<Rightarrow> int \<times> 'io"

subsection \<open>The transfer engine\<close>

datatype xfer_fn = XferMemSys | XferMemLsb | XferMemLocal

text \<open>
  \<open>CCPXFERCTX\<close>. The callbacks \<open>pfnRead\<close> and \<open>pfnWrite\<close> are one of three functions
  each, so a callback is the name of its memory; the device \<open>pThis\<close> is passed along.
\<close>

record CCPXFERCTX =
  pfnRead :: xfer_fn
  pfnWrite :: xfer_fn
  CcpAddrSrc :: CCPADDR
  cbReadLeft :: size_t
  CcpAddrDst :: CCPADDR
  cbWriteLeft :: size_t
  fWriteRev :: bool

definition CCP_ADDR_CREATE_FROM_HI_LO :: "u16 \<Rightarrow> u32 \<Rightarrow> CCPADDR" where
  "CCP_ADDR_CREATE_FROM_HI_LO a_High a_Low = push_bit 32 (ucast a_High) OR ucast a_Low"

definition pspDevCcpXferMemSysRead ::
  "('io, 'x) PSPDEVCCP \<Rightarrow> CCPADDR \<Rightarrow> size_t \<Rightarrow> int \<times> u8 list \<times> ('io, 'x) PSPDEVCCP" where
  "pspDevCcpXferMemSysRead pThis CcpAddr cbRead = (-1, [], pThis)"

definition pspDevCcpXferMemSysWrite ::
  "('io, 'x) PSPDEVCCP \<Rightarrow> CCPADDR \<Rightarrow> u8 list \<Rightarrow> int \<times> ('io, 'x) PSPDEVCCP" where
  "pspDevCcpXferMemSysWrite pThis CcpAddr pvSrc = (-1, pThis)"

definition pspDevCcpXferMemLocalRead ::
  "'io iomgr \<Rightarrow> ('io, 'x) PSPDEVCCP \<Rightarrow> CCPADDR \<Rightarrow> size_t \<Rightarrow> int \<times> u8 list \<times> ('io, 'x) PSPDEVCCP" where
  "pspDevCcpXferMemLocalRead iom pThis CcpAddr cbRead =
     (case PSPEmuIoMgrPspAddrRead iom (hIoMgr pThis) (ucast CcpAddr) cbRead of
        (rc, pvDst, io') \<Rightarrow> (rc, pvDst, pThis\<lparr>hIoMgr := io'\<rparr>))"

definition pspDevCcpXferMemLocalWrite ::
  "'io iomgr \<Rightarrow> ('io, 'x) PSPDEVCCP \<Rightarrow> CCPADDR \<Rightarrow> u8 list \<Rightarrow> int \<times> ('io, 'x) PSPDEVCCP" where
  "pspDevCcpXferMemLocalWrite iom pThis CcpAddr pvSrc =
     (case PSPEmuIoMgrPspAddrWrite iom (hIoMgr pThis) (ucast CcpAddr) pvSrc of
        (rc, io') \<Rightarrow>
          if rc = 0
          then (rc, pThis\<lparr>hIoMgr := io',
                         cbWrittenLast := cbWrittenLast pThis + of_nat (length pvSrc)\<rparr>)
          else (rc, pThis\<lparr>hIoMgr := io'\<rparr>))"

definition xfer_read ::
  "'io iomgr \<Rightarrow> xfer_fn \<Rightarrow> ('io, 'x) PSPDEVCCP \<Rightarrow> CCPADDR \<Rightarrow> size_t
    \<Rightarrow> int \<times> u8 list \<times> ('io, 'x) PSPDEVCCP" where
  \<comment> \<open>the call \<open>pCtx->pfnRead(pThis, CcpAddr, pvDst, cbRead)\<close>\<close>
  "xfer_read iom f pThis CcpAddr cbRead =
     (case f of
        XferMemSys \<Rightarrow> pspDevCcpXferMemSysRead pThis CcpAddr cbRead
      | XferMemLsb \<Rightarrow> pspDevCcpXferMemLsbRead pThis CcpAddr cbRead
      | XferMemLocal \<Rightarrow> pspDevCcpXferMemLocalRead iom pThis CcpAddr cbRead)"

definition xfer_write ::
  "'io iomgr \<Rightarrow> xfer_fn \<Rightarrow> ('io, 'x) PSPDEVCCP \<Rightarrow> CCPADDR \<Rightarrow> u8 list
    \<Rightarrow> int \<times> ('io, 'x) PSPDEVCCP" where
  \<comment> \<open>the call \<open>pCtx->pfnWrite(pThis, CcpAddr, pvSrc, cbWrite)\<close>\<close>
  "xfer_write iom f pThis CcpAddr pvSrc =
     (case f of
        XferMemSys \<Rightarrow> pspDevCcpXferMemSysWrite pThis CcpAddr pvSrc
      | XferMemLsb \<Rightarrow> pspDevCcpXferMemLsbWrite pThis CcpAddr pvSrc
      | XferMemLocal \<Rightarrow> pspDevCcpXferMemLocalWrite iom pThis CcpAddr pvSrc)"

definition xfer_fn_of :: "ccp_hdr \<Rightarrow> u16 \<Rightarrow> xfer_fn option" where
  \<comment> \<open>the \<open>switch\<close> over a memory type; \<open>None\<close> is its \<open>default\<close>\<close>
  "xfer_fn_of h uMemType =
     (if CCP_V5_MEM_TYPE_GET h uMemType = CCP_V5_MEM_TYPE_SYSTEM h then Some XferMemSys
      else if CCP_V5_MEM_TYPE_GET h uMemType = CCP_V5_MEM_TYPE_SB h then Some XferMemLsb
      else if CCP_V5_MEM_TYPE_GET h uMemType = CCP_V5_MEM_TYPE_LOCAL h then Some XferMemLocal
      else None)"

text \<open>
  \<open>pspDevCcpXferCtxInit\<close>; the context is \<open>None\<close> where the code returns \<open>-1\<close>.
  \<open>cbWrittenLast\<close> is reset in either case.
\<close>

definition pspDevCcpXferCtxInit ::
  "ccp_hdr \<Rightarrow> ('io, 'x) PSPDEVCCP \<Rightarrow> CCP5REQ \<Rightarrow> bool \<Rightarrow> size_t \<Rightarrow> bool
    \<Rightarrow> CCPXFERCTX option \<times> ('io, 'x) PSPDEVCCP" where
  "pspDevCcpXferCtxInit h pThis pReq fSha cbWrite fWriteRev' =
     (let pThis' = pThis\<lparr>cbWrittenLast := 0\<rparr>;
          rev_off = (if fWriteRev' then cbWrite else 0)
      in case xfer_fn_of h (u16SrcMemType pReq) of
           None \<Rightarrow> (None, pThis')
         | Some pfnR \<Rightarrow>
             if \<not> fSha then
               (case xfer_fn_of h (u16DstMemType pReq) of
                  None \<Rightarrow> (None, pThis')
                | Some pfnW \<Rightarrow>
                    (Some \<lparr>pfnRead = pfnR, pfnWrite = pfnW,
                       CcpAddrSrc = CCP_ADDR_CREATE_FROM_HI_LO (u16AddrSrcHigh pReq) (u32AddrSrcLow pReq),
                       cbReadLeft = ucast (cbSrc pReq),
                       CcpAddrDst = CCP_ADDR_CREATE_FROM_HI_LO (u16AddrDstHigh pReq) (u32AddrDstLow pReq)
                                      + rev_off,
                       cbWriteLeft = cbWrite, fWriteRev = fWriteRev'\<rparr>, pThis'))
             else
               (let uLsbCtxId = CCP_V5_MEM_LSB_CTX_ID_GET h (u16SrcMemType pReq)
                in if uLsbCtxId < 128 then
                     (Some \<lparr>pfnRead = pfnR, pfnWrite = XferMemLsb,
                        CcpAddrSrc = CCP_ADDR_CREATE_FROM_HI_LO (u16AddrSrcHigh pReq) (u32AddrSrcLow pReq),
                        cbReadLeft = ucast (cbSrc pReq),
                        CcpAddrDst = ucast uLsbCtxId * 32 + rev_off,
                        cbWriteLeft = cbWrite, fWriteRev = fWriteRev'\<rparr>, pThis')
                   else (None, pThis')))"

text \<open>
  \<open>pspDevCcpXferCtxRead\<close>; \<open>pcbRead\<close> says whether the optional result pointer is given
  (every caller passes \<open>NULL\<close>).
\<close>

definition pspDevCcpXferCtxRead ::
  "'io iomgr \<Rightarrow> CCPXFERCTX \<Rightarrow> ('io, 'x) PSPDEVCCP \<Rightarrow> size_t \<Rightarrow> bool
    \<Rightarrow> int \<times> u8 list \<times> CCPXFERCTX \<times> ('io, 'x) PSPDEVCCP" where
  "pspDevCcpXferCtxRead iom pCtx pThis cbRead pcbRead =
     (let cbThisRead = min cbRead (cbReadLeft pCtx)
      in if cbThisRead \<noteq> 0 \<and> (pcbRead \<or> cbThisRead = cbRead) then
           (case xfer_read iom (pfnRead pCtx) pThis (CcpAddrSrc pCtx) cbThisRead of
              (rc, pvDst, pThis') \<Rightarrow>
                if rc = 0
                then (rc, pvDst, pCtx\<lparr>cbReadLeft := cbReadLeft pCtx - cbThisRead,
                                      CcpAddrSrc := CcpAddrSrc pCtx + cbThisRead\<rparr>, pThis')
                else (rc, pvDst, pCtx, pThis'))
         else (-1, [], pCtx, pThis))"

text \<open>The byte-wise loop of a reversed write: one call of the writer per byte.\<close>

fun xfer_write_rev ::
  "'io iomgr \<Rightarrow> xfer_fn \<Rightarrow> CCPADDR \<Rightarrow> ('io, 'x) PSPDEVCCP \<Rightarrow> u8 list
    \<Rightarrow> int \<times> CCPADDR \<times> ('io, 'x) PSPDEVCCP" where
  "xfer_write_rev iom f CcpAddr pThis [] = (0, CcpAddr, pThis)"
| "xfer_write_rev iom f CcpAddr pThis (b # pbSrc) =
     (case xfer_write iom f pThis (CcpAddr - 1) [b] of
        (rc, pThis') \<Rightarrow>
          if rc = 0 then xfer_write_rev iom f (CcpAddr - 1) pThis' pbSrc
          else (rc, CcpAddr - 1, pThis'))"

text \<open>
  \<open>pspDevCcpXferCtxWrite\<close>; \<open>pvSrc\<close> is the caller's buffer, of which the first
  \<open>cbThisWrite\<close> bytes are written.
\<close>

definition pspDevCcpXferCtxWrite ::
  "'io iomgr \<Rightarrow> CCPXFERCTX \<Rightarrow> ('io, 'x) PSPDEVCCP \<Rightarrow> u8 list \<Rightarrow> size_t \<Rightarrow> bool
    \<Rightarrow> int \<times> CCPXFERCTX \<times> ('io, 'x) PSPDEVCCP" where
  "pspDevCcpXferCtxWrite iom pCtx pThis pvSrc cbWrite pcbWritten =
     (let cbThisWrite = min cbWrite (cbWriteLeft pCtx)
      in if cbThisWrite \<noteq> 0 \<and> (pcbWritten \<or> cbThisWrite = cbWrite) then
           (if fWriteRev pCtx then
              (case xfer_write_rev iom (pfnWrite pCtx) (CcpAddrDst pCtx) pThis
                      (take (unat cbThisWrite) pvSrc) of
                 (rc, CcpAddrDst', pThis') \<Rightarrow> (rc, pCtx\<lparr>CcpAddrDst := CcpAddrDst'\<rparr>, pThis'))
            else
              (case xfer_write iom (pfnWrite pCtx) pThis (CcpAddrDst pCtx)
                      (take (unat cbThisWrite) pvSrc) of
                 (rc, pThis') \<Rightarrow>
                   if rc = 0
                   then (rc, pCtx\<lparr>cbWriteLeft := cbWriteLeft pCtx - cbThisWrite,
                                  CcpAddrDst := CcpAddrDst pCtx + cbThisWrite\<rparr>, pThis')
                   else (rc, pCtx, pThis')))
         else (-1, pCtx, pThis))"

subsection \<open>The parts outside the sources\<close>

text \<open>
  The OpenSSL digest and RSA primitives, the engines that are not modelled (AES, zlib
  decompression, ECC) and the contents of uninitialised stack memory are parameters:
  \<^item> \<open>EVP_Digest md m\<close> is the digest of the bytes \<open>m\<close> that a context of algorithm \<open>md\<close>
    gives when it is created, fed \<open>m\<close> in any number of updates and finalised;
  \<^item> \<open>RSA_public_encrypt flen from n e\<close> is the call with \<open>RSA_NO_PADDING\<close> on a key of
    modulus \<open>n\<close> and public exponent \<open>e\<close>: its return value and the bytes it stores;
  \<^item> \<open>stack i\<close> is the byte that an uninitialised local buffer holds at offset \<open>i\<close>.
  Allocations (\<open>EVP_MD_CTX_new\<close>, \<open>RSA_new\<close>, \<open>BN_lebin2bn\<close>) and the digest calls are taken
  to succeed.
\<close>

record ('io, 'x) ccp_ext =
  EVP_Digest :: "sha_md \<Rightarrow> u8 list \<Rightarrow> u8 list"
  RSA_public_encrypt :: "nat \<Rightarrow> u8 list \<Rightarrow> nat \<Rightarrow> nat \<Rightarrow> int \<times> u8 list"
  stack :: "nat \<Rightarrow> u8"
  pspDevCcpReqAesProcess ::
    "('io, 'x) PSPDEVCCP \<Rightarrow> CCP5REQ \<Rightarrow> u32 \<Rightarrow> bool \<Rightarrow> bool \<Rightarrow> int \<times> ('io, 'x) PSPDEVCCP"
  pspDevCcpReqZlibProcess ::
    "('io, 'x) PSPDEVCCP \<Rightarrow> CCP5REQ \<Rightarrow> u32 \<Rightarrow> bool \<Rightarrow> bool \<Rightarrow> int \<times> ('io, 'x) PSPDEVCCP"
  pspDevCcpReqEccProcess ::
    "('io, 'x) PSPDEVCCP \<Rightarrow> CCP5REQ \<Rightarrow> u32 \<Rightarrow> bool \<Rightarrow> bool \<Rightarrow> int \<times> ('io, 'x) PSPDEVCCP"

definition uninit :: "('io, 'x) ccp_ext \<Rightarrow> nat \<Rightarrow> u8 list" where
  \<comment> \<open>a local buffer of \<open>n\<close> bytes before anything is stored in it\<close>
  "uninit ext n = map (stack ext) [0..<n]"

definition EVP_MD_size :: "sha_md \<Rightarrow> nat" where
  "EVP_MD_size md = (case md of EVP_sha256 \<Rightarrow> 32 | EVP_sha384 \<Rightarrow> 48)"

fun le_nat :: "u8 list \<Rightarrow> nat" where
  "le_nat [] = 0"
| "le_nat (b # bs) = unat b + 256 * le_nat bs"

definition BN_lebin2bn :: "u8 list \<Rightarrow> nat \<Rightarrow> nat" where
  \<comment> \<open>the number whose little-endian form is the first \<open>len\<close> bytes of \<open>s\<close>\<close>
  "BN_lebin2bn s len = le_nat (take len s)"

subsection \<open>Helpers of the request processors\<close>

function reverse_loop :: "u8 list \<Rightarrow> nat \<Rightarrow> nat \<Rightarrow> u8 list" where
  "reverse_loop buf i j =
     (if i < j then reverse_loop (buf[i := buf ! j, j := buf ! i]) (Suc i) (j - 1) else buf)"
  by pat_completeness auto
termination
  by (relation "measure (\<lambda>(buf, i, j). j - i)") auto

declare reverse_loop.simps [simp del]

definition pspDevCcpReverseBuf :: "u8 list \<Rightarrow> nat \<Rightarrow> u8 list" where
  \<comment> \<open>\<open>pbBuf\<close> and \<open>pbBufTop\<close> are the indices \<open>0\<close> and \<open>cbBuf - 1\<close> into the buffer\<close>
  "pspDevCcpReverseBuf pbBuf cbBuf = reverse_loop pbBuf 0 (cbBuf - 1)"

text \<open>
  \<open>pspDevCcpKeyCopyFromReq\<close>; \<open>pvKey\<close> is the caller's buffer before the call, the result
  holds it afterwards. For a key memory type that is neither \<open>LOCAL\<close> nor \<open>SB\<close> the
  code stores nothing and returns 0.
\<close>

definition pspDevCcpKeyCopyFromReq ::
  "'io iomgr \<Rightarrow> ccp_hdr \<Rightarrow> ('io, 'x) PSPDEVCCP \<Rightarrow> CCP5REQ \<Rightarrow> size_t \<Rightarrow> u8 list
    \<Rightarrow> int \<times> u8 list \<times> ('io, 'x) PSPDEVCCP" where
  "pspDevCcpKeyCopyFromReq iom h pThis pReq cbKey pvKey =
     (let CcpAddrKey = CCP_ADDR_CREATE_FROM_HI_LO (u16AddrKeyHigh pReq) (u32AddrKeyLow pReq)
      in if CCP_V5_MEM_TYPE_GET h (u16KeyMemType pReq) = CCP_V5_MEM_TYPE_LOCAL h then
           (case pspDevCcpXferMemLocalRead iom pThis CcpAddrKey cbKey of
              (rc, bs, pThis') \<Rightarrow>
                (rc, if rc = 0 then bs @ drop (length bs) pvKey else pvKey, pThis'))
         else if CCP_V5_MEM_TYPE_GET h (u16KeyMemType pReq) = CCP_V5_MEM_TYPE_SB h then
           (if CcpAddrKey < 4096 \<and> CcpAddrKey + cbKey \<le> 4096
            then (0, memcpy_from (Lsb pThis) (unat CcpAddrKey) (unat cbKey)
                       @ drop (unat cbKey) pvKey, pThis)
            else (-1, pvKey, pThis))
         else (0, pvKey, pThis))"

subsection \<open>The PASSTHRU engine\<close>

function passthru_loop ::
  "'io iomgr \<Rightarrow> CCPXFERCTX \<Rightarrow> size_t \<Rightarrow> ('io, 'x) PSPDEVCCP
    \<Rightarrow> int \<times> CCPXFERCTX \<times> ('io, 'x) PSPDEVCCP" where
  "passthru_loop iom XferCtx cbLeft pThis =
     (if cbLeft \<noteq> 0 then
        (case pspDevCcpXferCtxRead iom XferCtx pThis (min cbLeft 4096) False of
           (rc, abData, XferCtx1, pThis1) \<Rightarrow>
             if rc = 0 then
               (case pspDevCcpXferCtxWrite iom XferCtx1 pThis1 abData (min cbLeft 4096) False of
                  (rc', XferCtx2, pThis2) \<Rightarrow>
                    if rc' = 0 then passthru_loop iom XferCtx2 (cbLeft - min cbLeft 4096) pThis2
                    else (rc', XferCtx2, pThis2))
             else (rc, XferCtx1, pThis1))
      else (0, XferCtx, pThis))"
  by pat_completeness auto
termination
proof (relation "measure (\<lambda>(iom, XferCtx, cbLeft, pThis). unat cbLeft)")
  show "wf (measure (\<lambda>(iom :: 'a iomgr, XferCtx :: CCPXFERCTX, cbLeft :: size_t,
                        pThis :: ('a, 'b) PSPDEVCCP). unat cbLeft))"
    by simp
next
  fix cbLeft :: size_t
  fix iom :: "'a iomgr" and XferCtx XferCtx2 :: CCPXFERCTX and pThis pThis2 :: "('a, 'b) PSPDEVCCP"
  assume nz: "cbLeft \<noteq> 0"
  have le: "min cbLeft 4096 \<le> cbLeft" by simp
  have "min cbLeft 4096 \<noteq> 0" using nz by (simp add: min_def)
  then have "0 < unat (min cbLeft 4096)" by (simp add: unat_gt_0)
  moreover have "unat (cbLeft - min cbLeft 4096) = unat cbLeft - unat (min cbLeft 4096)"
    using le by (rule unat_sub)
  moreover have "unat (min cbLeft 4096) \<le> unat cbLeft" using le by (simp add: word_le_nat_alt)
  ultimately have "unat (cbLeft - min cbLeft 4096) < unat cbLeft" by linarith
  then show "((iom, XferCtx2, cbLeft - min cbLeft 4096, pThis2), (iom, XferCtx, cbLeft, pThis))
      \<in> measure (\<lambda>(iom, XferCtx, cbLeft, pThis). unat cbLeft)"
    by simp
qed

declare passthru_loop.simps [simp del]

definition pspDevCcpReqPassthruProcess ::
  "'io iomgr \<Rightarrow> ccp_hdr \<Rightarrow> ('io, 'x) PSPDEVCCP \<Rightarrow> CCP5REQ \<Rightarrow> u32 \<Rightarrow> int \<times> ('io, 'x) PSPDEVCCP" where
  "pspDevCcpReqPassthruProcess iom h pThis pReq uFunc =
     (let uByteSwap = CCP_V5_ENGINE_PASSTHRU_BYTESWAP_GET h uFunc;
          uBitwise = CCP_V5_ENGINE_PASSTHRU_BITWISE_GET h uFunc;
          uReflect = CCP_V5_ENGINE_PASSTHRU_REFLECT_GET h uFunc
      in if uBitwise = CCP_V5_ENGINE_PASSTHRU_BITWISE_NOOP h
            \<and> (uByteSwap = CCP_V5_ENGINE_PASSTHRU_BYTESWAP_NOOP h
               \<or> (uByteSwap = CCP_V5_ENGINE_PASSTHRU_BYTESWAP_256BIT h \<and> cbSrc pReq = 32))
            \<and> uReflect = 0
         then
           (case pspDevCcpXferCtxInit h pThis pReq False (ucast (cbSrc pReq))
                   (uByteSwap = CCP_V5_ENGINE_PASSTHRU_BYTESWAP_256BIT h) of
              (None, pThis1) \<Rightarrow> (-1, pThis1)
            | (Some XferCtx, pThis1) \<Rightarrow>
                (case passthru_loop iom XferCtx (ucast (cbSrc pReq)) pThis1 of
                   (rc, XferCtx', pThis2) \<Rightarrow> (rc, pThis2)))
         else (-1, pThis))"

subsection \<open>The SHA engine\<close>

definition sha_update :: "('io, 'x) PSPDEVCCP \<Rightarrow> u8 list \<Rightarrow> int \<times> ('io, 'x) PSPDEVCCP" where
  \<comment> \<open>\<open>EVP_DigestUpdate(pThis->pOsslShaCtx, abData, cbThisProc)\<close>; the context is never
      null where the code calls it\<close>
  "sha_update pThis abData =
     (case pOsslShaCtx pThis of
        None \<Rightarrow> (-1, pThis)
      | Some (md, m) \<Rightarrow> (0, pThis\<lparr>pOsslShaCtx := Some (md, m @ abData)\<rparr>))"

function sha_loop ::
  "'io iomgr \<Rightarrow> CCPXFERCTX \<Rightarrow> size_t \<Rightarrow> ('io, 'x) PSPDEVCCP
    \<Rightarrow> int \<times> CCPXFERCTX \<times> ('io, 'x) PSPDEVCCP" where
  "sha_loop iom XferCtx cbLeft pThis =
     (if cbLeft \<noteq> 0 then
        (case pspDevCcpXferCtxRead iom XferCtx pThis (min cbLeft 256) False of
           (rc, abData, XferCtx1, pThis1) \<Rightarrow>
             if rc = 0 then
               (case sha_update pThis1 abData of
                  (rc', pThis2) \<Rightarrow>
                    if rc' = 0 then sha_loop iom XferCtx1 (cbLeft - min cbLeft 256) pThis2
                    else (rc', XferCtx1, pThis2))
             else (rc, XferCtx1, pThis1))
      else (0, XferCtx, pThis))"
  by pat_completeness auto
termination
proof (relation "measure (\<lambda>(iom, XferCtx, cbLeft, pThis). unat cbLeft)")
  show "wf (measure (\<lambda>(iom :: 'a iomgr, XferCtx :: CCPXFERCTX, cbLeft :: size_t,
                        pThis :: ('a, 'b) PSPDEVCCP). unat cbLeft))"
    by simp
next
  fix cbLeft :: size_t
  fix iom :: "'a iomgr" and XferCtx XferCtx1 :: CCPXFERCTX and pThis pThis2 :: "('a, 'b) PSPDEVCCP"
  assume nz: "cbLeft \<noteq> 0"
  have le: "min cbLeft 256 \<le> cbLeft" by simp
  have "min cbLeft 256 \<noteq> 0" using nz by (simp add: min_def)
  then have "0 < unat (min cbLeft 256)" by (simp add: unat_gt_0)
  moreover have "unat (cbLeft - min cbLeft 256) = unat cbLeft - unat (min cbLeft 256)"
    using le by (rule unat_sub)
  moreover have "unat (min cbLeft 256) \<le> unat cbLeft" using le by (simp add: word_le_nat_alt)
  ultimately have "unat (cbLeft - min cbLeft 256) < unat cbLeft" by linarith
  then show "((iom, XferCtx1, cbLeft - min cbLeft 256, pThis2), (iom, XferCtx, cbLeft, pThis))
      \<in> measure (\<lambda>(iom, XferCtx, cbLeft, pThis). unat cbLeft)"
    by simp
qed

declare sha_loop.simps [simp del]

text \<open>
  \<open>pspDevCcpReqShaProcess\<close>. \<open>fInit\<close> is not used by the code (the branch that used it
  is compiled out): a context is created only when none is in flight. On \<open>fEom\<close> the
  digest of the context is stored at the start of the \<open>cbDigest\<close> bytes of \<open>pbDigest\<close>.
\<close>

definition pspDevCcpReqShaProcess ::
  "'io iomgr \<Rightarrow> ccp_hdr \<Rightarrow> ('io, 'x) ccp_ext \<Rightarrow> ('io, 'x) PSPDEVCCP \<Rightarrow> CCP5REQ \<Rightarrow> u32
    \<Rightarrow> bool \<Rightarrow> bool \<Rightarrow> int \<times> ('io, 'x) PSPDEVCCP" where
  "pspDevCcpReqShaProcess iom h ext pThis pReq uFunc fInit fEom =
     (let uShaType = CCP_V5_ENGINE_SHA_TYPE_GET h uFunc
      in if uShaType = CCP_V5_ENGINE_SHA_TYPE_256 h \<or> uShaType = CCP_V5_ENGINE_SHA_TYPE_384 h then
           (let pOsslEvpSha = (if uShaType = CCP_V5_ENGINE_SHA_TYPE_256 h
                               then EVP_sha256 else EVP_sha384);
                cbDigest = (if uShaType = CCP_V5_ENGINE_SHA_TYPE_256 h then 32 else 48 :: nat)
            in case pspDevCcpXferCtxInit h pThis pReq True (of_nat (EVP_MD_size pOsslEvpSha)) True of
                 (None, pThis1) \<Rightarrow> (-1, pThis1)
               | (Some XferCtx, pThis1) \<Rightarrow>
                   (let pThis2 = (if pOsslShaCtx pThis1 = None
                                  then pThis1\<lparr>pOsslShaCtx := Some (pOsslEvpSha, [])\<rparr>
                                  else pThis1)
                    in case sha_loop iom XferCtx (ucast (cbSrc pReq)) pThis2 of
                         (rc, XferCtx', pThis3) \<Rightarrow>
                           if rc = 0 \<and> fEom then
                             (case pOsslShaCtx pThis3 of
                                None \<Rightarrow> (-1, pThis3)
                              | Some (md, m) \<Rightarrow>
                                  (let dg = EVP_Digest ext md m;
                                       pbDigest = take cbDigest (dg @ drop (length dg) (uninit ext cbDigest))
                                   in case pspDevCcpXferCtxWrite iom XferCtx' pThis3 pbDigest
                                             (of_nat cbDigest) False of
                                        (rc', XferCtx'', pThis4) \<Rightarrow>
                                          (rc', pThis4\<lparr>pOsslShaCtx := None\<rparr>)))
                           else (rc, pThis3)))
         else (-1, pThis))"

subsection \<open>The RSA engine\<close>

definition pspDevCcpReqRsaProcess ::
  "'io iomgr \<Rightarrow> ccp_hdr \<Rightarrow> ('io, 'x) ccp_ext \<Rightarrow> ('io, 'x) PSPDEVCCP \<Rightarrow> CCP5REQ \<Rightarrow> u32
    \<Rightarrow> bool \<Rightarrow> bool \<Rightarrow> int \<times> ('io, 'x) PSPDEVCCP" where
  "pspDevCcpReqRsaProcess iom h ext pThis pReq uFunc fInit fEom =
     (let uSz = CCP_V5_ENGINE_RSA_SZ_GET h uFunc;
          uMode = CCP_V5_ENGINE_RSA_MODE_GET h uFunc
      in if uMode = 0 \<and> ((uSz = 256 \<and> cbSrc pReq = 512) \<or> (uSz = 512 \<and> cbSrc pReq = 1024)) then
           (case pspDevCcpKeyCopyFromReq iom h pThis pReq (ucast uSz) (uninit ext 512) of
              (rc, abExp, pThis1) \<Rightarrow>
                if rc = 0 then
                  (let pExp = BN_lebin2bn abExp (unat uSz div 2)
                   in case pspDevCcpXferCtxInit h pThis1 pReq False (ucast uSz) False of
                        (None, pThis2) \<Rightarrow> (-1, pThis2)
                      | (Some XferCtx, pThis2) \<Rightarrow>
                          (case pspDevCcpXferCtxRead iom XferCtx pThis2 (ucast (cbSrc pReq)) False of
                             (rc1, abData, XferCtx1, pThis3) \<Rightarrow>
                               if rc1 = 0 then
                                 (let pMod = BN_lebin2bn abData (unat (cbSrc pReq div 2));
                                      msg = take (unat (cbSrc pReq div 2))
                                              (pspDevCcpReverseBuf (drop (unat uSz) abData)
                                                 (unat (cbSrc pReq div 2)))
                                  in case RSA_public_encrypt ext (unat (cbSrc pReq div 2)) msg pMod pExp of
                                       (cbEnc, out) \<Rightarrow>
                                         if cbEnc = uint uSz then
                                           (let abResult = pspDevCcpReverseBuf
                                                  (out @ drop (length out) (uninit ext 512)) (unat uSz)
                                            in case pspDevCcpXferCtxWrite iom XferCtx1 pThis3 abResult
                                                      (ucast uSz) False of
                                                 (rc2, XferCtx2, pThis4) \<Rightarrow> (rc2, pThis4))
                                         else (-1, pThis3))
                               else (rc1, pThis3)))
                else (rc, pThis1))
         else (-1, pThis))"

subsection \<open>Request dispatch\<close>

definition pspDevCcpReqProcess ::
  "'io iomgr \<Rightarrow> ccp_hdr \<Rightarrow> ('io, 'x) ccp_ext \<Rightarrow> ('io, 'x) PSPDEVCCP \<Rightarrow> CCP5REQ
    \<Rightarrow> int \<times> ('io, 'x) PSPDEVCCP" where
  "pspDevCcpReqProcess iom h ext pThis pReq =
     (let uEngine = CCP_V5_ENGINE_GET h (u32Dw0 pReq);
          uFunction = CCP_V5_ENGINE_FUNC_GET h (u32Dw0 pReq);
          fInit = CCP_V5_ENGINE_INIT_GET h (u32Dw0 pReq);
          fEom = CCP_V5_ENGINE_EOM_GET h (u32Dw0 pReq)
      in if uEngine = CCP_V5_ENGINE_PASSTHRU h then pspDevCcpReqPassthruProcess iom h pThis pReq uFunction
         else if uEngine = CCP_V5_ENGINE_SHA h then pspDevCcpReqShaProcess iom h ext pThis pReq uFunction fInit fEom
         else if uEngine = CCP_V5_ENGINE_AES h then pspDevCcpReqAesProcess ext pThis pReq uFunction fInit fEom
         else if uEngine = CCP_V5_ENGINE_ZLIB_DECOMP h then pspDevCcpReqZlibProcess ext pThis pReq uFunction fInit fEom
         else if uEngine = CCP_V5_ENGINE_RSA h then pspDevCcpReqRsaProcess iom h ext pThis pReq uFunction fInit fEom
         else if uEngine = CCP_V5_ENGINE_ECC h then pspDevCcpReqEccProcess ext pThis pReq uFunction fInit fEom
         else (-1, pThis))"

text \<open>
  A sequence of requests processed in order up to the first failure, as the executor
  does with the descriptors of a ring.
\<close>

fun req_seq ::
  "(('io, 'x) PSPDEVCCP \<Rightarrow> CCP5REQ \<Rightarrow> int \<times> ('io, 'x) PSPDEVCCP) \<Rightarrow> ('io, 'x) PSPDEVCCP
    \<Rightarrow> CCP5REQ list \<Rightarrow> int \<times> ('io, 'x) PSPDEVCCP" where
  "req_seq proc pThis [] = (0, pThis)"
| "req_seq proc pThis (pReq # reqs) =
     (case proc pThis pReq of
        (rc, pThis') \<Rightarrow> if rc = 0 then req_seq proc pThis' reqs else (rc, pThis'))"

subsection \<open>The queue executor\<close>

definition queue_upd ::
  "('io, 'x) PSPDEVCCP \<Rightarrow> nat \<Rightarrow> (CCPQUEUE \<Rightarrow> CCPQUEUE) \<Rightarrow> ('io, 'x) PSPDEVCCP" where
  \<comment> \<open>an assignment through \<open>pQueue = &pThis->aQueues[iq]\<close>\<close>
  "queue_upd pThis iq f = pThis\<lparr>aQueues := (aQueues pThis)(iq := f (aQueues pThis iq))\<rparr>"

text \<open>
  The body of the \<open>while\<close> loop of \<open>pspDevCcpQueueRunMaybe\<close>, for the local
  \<open>u32ReqHead\<close>. The request processor is the argument \<open>proc\<close> (it is
  \<open>pspDevCcpReqProcess\<close> in the device). The result says whether the loop goes on
  (\<open>False\<close> after a \<open>break\<close>) and gives the new \<open>u32ReqHead\<close> and the device.
\<close>

definition queue_iter ::
  "'io iomgr \<Rightarrow> (('io, 'x) PSPDEVCCP \<Rightarrow> CCP5REQ \<Rightarrow> int \<times> ('io, 'x) PSPDEVCCP) \<Rightarrow> ccp_hdr \<Rightarrow> nat
    \<Rightarrow> u32 \<Rightarrow> ('io, 'x) PSPDEVCCP \<Rightarrow> bool \<times> u32 \<times> ('io, 'x) PSPDEVCCP" where
  "queue_iter iom proc h iq u32ReqHead pThis =
     (case PSPEmuIoMgrPspAddrRead iom (hIoMgr pThis) u32ReqHead 32 of
        (rc, Req, io') \<Rightarrow>
          if rc = 0 then
            (case proc (pThis\<lparr>hIoMgr := io'\<rparr>) (req_of_bytes Req) of
               (rc', pThis') \<Rightarrow>
                 if rc' = 0 then
                   (True, u32ReqHead + 32,
                    queue_upd pThis' iq (\<lambda>q. q
                      \<lparr>u32RegSts := CCP_V5_Q_REG_STATUS_SUCCESS h,
                       u32RegIsts := u32RegIsts q OR CCP_V5_Q_REG_ISTS_COMPLETION h\<rparr>))
                 else
                   (False, u32ReqHead,
                    queue_upd pThis' iq (\<lambda>q. q
                      \<lparr>u32RegSts := CCP_V5_Q_REG_STATUS_ERROR h,
                       u32RegIsts := u32RegIsts q OR CCP_V5_Q_REG_ISTS_ERROR h\<rparr>)))
          else
            (False, u32ReqHead,
             queue_upd
               (pThis\<lparr>hIoMgr := io',
                  evts := evts pThis @ [EvPrintf (ReqReadFailed u32ReqHead rc)]\<rparr>) iq
               (\<lambda>q. q\<lparr>u32RegSts := CCP_V5_Q_REG_STATUS_ERROR h,
                     u32RegIsts := u32RegIsts q OR CCP_V5_Q_REG_ISTS_ERROR h\<rparr>)))"

text \<open>
  The loop itself. It ends when the head reaches the tail or at the first \<open>break\<close>.
  With a tail that is not a multiple of 32 bytes away from the head and requests that all
  succeed it does not end; the result is then \<open>None\<close>.
\<close>

partial_function (option) queue_drain ::
  "'io iomgr \<Rightarrow> (('io, 'x) PSPDEVCCP \<Rightarrow> CCP5REQ \<Rightarrow> int \<times> ('io, 'x) PSPDEVCCP) \<Rightarrow> ccp_hdr \<Rightarrow> nat
    \<Rightarrow> u32 \<Rightarrow> u32 \<Rightarrow> ('io, 'x) PSPDEVCCP \<Rightarrow> (u32 \<times> ('io, 'x) PSPDEVCCP) option" where
  "queue_drain iom proc h iq u32ReqTail u32ReqHead pThis =
     (if u32ReqTail \<noteq> u32ReqHead then
        (case queue_iter iom proc h iq u32ReqHead pThis of
           (cont, u32ReqHead', pThis') \<Rightarrow>
             if cont then queue_drain iom proc h iq u32ReqTail u32ReqHead' pThis'
             else Some (u32ReqHead', pThis'))
      else Some (u32ReqHead, pThis))"

declare queue_drain.simps [code]

text \<open>
  \<open>queue_iters n\<close> runs \<open>n\<close> iterations of the loop that all go on; it is \<open>None\<close> when
  the loop would have ended before.
\<close>

fun queue_iters ::
  "'io iomgr \<Rightarrow> (('io, 'x) PSPDEVCCP \<Rightarrow> CCP5REQ \<Rightarrow> int \<times> ('io, 'x) PSPDEVCCP) \<Rightarrow> ccp_hdr \<Rightarrow> nat
    \<Rightarrow> nat \<Rightarrow> u32 \<Rightarrow> u32 \<Rightarrow> ('io, 'x) PSPDEVCCP \<Rightarrow> (u32 \<times> ('io, 'x) PSPDEVCCP) option" where
  "queue_iters iom proc h iq 0 u32ReqTail u32ReqHead pThis = Some (u32ReqHead, pThis)"
| "queue_iters iom proc h iq (Suc n) u32ReqTail u32ReqHead pThis =
     (if u32ReqTail \<noteq> u32ReqHead then
        (case queue_iter iom proc h iq u32ReqHead pThis of
           (cont, u32ReqHead', pThis') \<Rightarrow>
             if cont then queue_iters iom proc h iq n u32ReqTail u32ReqHead' pThis' else None)
      else None)"

definition queue_halt ::
  "ccp_hdr \<Rightarrow> nat \<Rightarrow> u32 \<Rightarrow> u32 \<Rightarrow> ('io, 'x) PSPDEVCCP \<Rightarrow> ('io, 'x) PSPDEVCCP" where
  \<comment> \<open>the statements of \<open>pspDevCcpQueueRunMaybe\<close> after the loop\<close>
  "queue_halt h iq u32ReqTail u32ReqHead pThis =
     (let pThis1 = queue_upd pThis iq (\<lambda>q. q
            \<lparr>u32RegReqHead := u32ReqHead,
             u32RegCtrl := u32RegCtrl q OR CCP_V5_Q_REG_CTRL_HALT h,
             u32RegIsts := u32RegIsts q OR CCP_V5_Q_REG_ISTS_Q_STOP h\<rparr>);
          pThis2 = (if u32ReqTail = u32ReqHead
                    then queue_upd pThis1 iq (\<lambda>q. q
                           \<lparr>u32RegIsts := u32RegIsts q OR CCP_V5_Q_REG_ISTS_Q_EMPTY h\<rparr>)
                    else pThis1)
      in if u32RegIen (aQueues pThis2 iq) AND u32RegIsts (aQueues pThis2 iq) \<noteq> 0
         then pThis2\<lparr>evts := evts pThis2 @ [EvIrqSet 0 0x15 True]\<rparr>
         else pThis2)"

definition pspDevCcpQueueRunMaybe ::
  "'io iomgr \<Rightarrow> (('io, 'x) PSPDEVCCP \<Rightarrow> CCP5REQ \<Rightarrow> int \<times> ('io, 'x) PSPDEVCCP) \<Rightarrow> ccp_hdr
    \<Rightarrow> ('io, 'x) PSPDEVCCP \<Rightarrow> nat \<Rightarrow> ('io, 'x) PSPDEVCCP option" where
  "pspDevCcpQueueRunMaybe iom proc h pThis iq =
     (if fEnabled (aQueues pThis iq) then
        (let u32ReqTail = u32RegReqTail (aQueues pThis iq);
             u32ReqHead = u32RegReqHead (aQueues pThis iq);
             pThis0 = queue_upd pThis iq (\<lambda>q. q
                        \<lparr>u32RegCtrl := u32RegCtrl q AND NOT (CCP_V5_Q_REG_CTRL_HALT h)\<rparr>)
         in case queue_drain iom proc h iq u32ReqTail u32ReqHead pThis0 of
              None \<Rightarrow> None
            | Some (u32ReqHead', pThis1) \<Rightarrow> Some (queue_halt h iq u32ReqTail u32ReqHead' pThis1))
      else Some pThis)"

subsection \<open>The MMIO front end\<close>

definition pspDevCcpMmioQueueRegRead ::
  "'io iomgr \<Rightarrow> (('io, 'x) PSPDEVCCP \<Rightarrow> CCP5REQ \<Rightarrow> int \<times> ('io, 'x) PSPDEVCCP) \<Rightarrow> ccp_hdr
    \<Rightarrow> ('io, 'x) PSPDEVCCP \<Rightarrow> nat \<Rightarrow> u32 \<Rightarrow> (u32 \<times> ('io, 'x) PSPDEVCCP) option" where
  "pspDevCcpMmioQueueRegRead iom proc h pThis iq offRegQ =
     (let q = aQueues pThis iq;
          u32Dst =
            (if offRegQ = CCP_V5_Q_REG_CTRL h then u32RegCtrl q
             else if offRegQ = CCP_V5_Q_REG_HEAD h then u32RegReqHead q
             else if offRegQ = CCP_V5_Q_REG_TAIL h then u32RegReqTail q
             else if offRegQ = CCP_V5_Q_REG_STATUS h then u32RegSts q
             else if offRegQ = CCP_V5_Q_REG_IEN h then u32RegIen q
             else if offRegQ = CCP_V5_Q_REG_ISTS h then u32RegIsts q
             else 0)
      in map_option (Pair u32Dst) (pspDevCcpQueueRunMaybe iom proc h pThis iq))"

definition queue_reg_store ::
  "ccp_hdr \<Rightarrow> ('io, 'x) PSPDEVCCP \<Rightarrow> nat \<Rightarrow> u32 \<Rightarrow> u32 \<Rightarrow> ('io, 'x) PSPDEVCCP" where
  \<comment> \<open>the \<open>switch\<close> of \<open>pspDevCcpMmioQueueRegWrite\<close>\<close>
  "queue_reg_store h pThis iq offRegQ u32Val =
     (if offRegQ = CCP_V5_Q_REG_CTRL h then
        queue_upd pThis iq (\<lambda>q.
          (if u32Val AND CCP_V5_Q_REG_CTRL_RUN h \<noteq> 0 \<and> \<not> fEnabled q then q\<lparr>fEnabled := True\<rparr>
           else if \<not> (u32Val AND CCP_V5_Q_REG_CTRL_RUN h \<noteq> 0) \<and> fEnabled q then q\<lparr>fEnabled := False\<rparr>
           else q)
          \<lparr>u32RegCtrl := u32Val AND NOT (CCP_V5_Q_REG_CTRL_RUN h)\<rparr>)
      else if offRegQ = CCP_V5_Q_REG_HEAD h then queue_upd pThis iq (\<lambda>q. q\<lparr>u32RegReqHead := u32Val\<rparr>)
      else if offRegQ = CCP_V5_Q_REG_TAIL h then queue_upd pThis iq (\<lambda>q. q\<lparr>u32RegReqTail := u32Val\<rparr>)
      else if offRegQ = CCP_V5_Q_REG_STATUS h then queue_upd pThis iq (\<lambda>q. q\<lparr>u32RegSts := u32Val\<rparr>)
      else if offRegQ = CCP_V5_Q_REG_IEN h then queue_upd pThis iq (\<lambda>q. q\<lparr>u32RegIen := u32Val\<rparr>)
      else if offRegQ = CCP_V5_Q_REG_ISTS h then
        (let pThis1 = queue_upd pThis iq (\<lambda>q. q\<lparr>u32RegIsts := u32RegIsts q AND NOT u32Val\<rparr>)
         in if u32RegIen (aQueues pThis1 iq) AND u32RegIsts (aQueues pThis1 iq) = 0
            then pThis1\<lparr>evts := evts pThis1 @ [EvIrqSet 0 0x15 False]\<rparr>
            else pThis1)
      else pThis)"

definition pspDevCcpMmioQueueRegWrite ::
  "'io iomgr \<Rightarrow> (('io, 'x) PSPDEVCCP \<Rightarrow> CCP5REQ \<Rightarrow> int \<times> ('io, 'x) PSPDEVCCP) \<Rightarrow> ccp_hdr
    \<Rightarrow> ('io, 'x) PSPDEVCCP \<Rightarrow> nat \<Rightarrow> u32 \<Rightarrow> u32 \<Rightarrow> ('io, 'x) PSPDEVCCP option" where
  "pspDevCcpMmioQueueRegWrite iom proc h pThis iq offRegQ u32Val =
     (let pThis1 = queue_reg_store h pThis iq offRegQ u32Val
      in if u32RegIen (aQueues pThis1 iq) \<noteq> 0
         then pspDevCcpQueueRunMaybe iom proc h pThis1 iq
         else Some pThis1)"

text \<open>
  \<open>pspDevCcpMmioRead\<close>: \<open>pvDst\<close> is the caller's buffer as it is before the call, and the
  result holds the buffer as it is afterwards.
\<close>

definition pspDevCcpMmioRead ::
  "'io iomgr \<Rightarrow> (('io, 'x) PSPDEVCCP \<Rightarrow> CCP5REQ \<Rightarrow> int \<times> ('io, 'x) PSPDEVCCP) \<Rightarrow> ccp_hdr
    \<Rightarrow> ('io, 'x) PSPDEVCCP \<Rightarrow> u32 \<Rightarrow> size_t \<Rightarrow> u8 list \<Rightarrow> (u8 list \<times> ('io, 'x) PSPDEVCCP) option" where
  "pspDevCcpMmioRead iom proc h pThis offMmio cbRead pvDst =
     (if cbRead \<noteq> 4 then
        Some (pvDst, pThis\<lparr>evts := evts pThis @ [EvPrintf (UnsupportedAccessWidth offMmio cbRead)]\<rparr>)
      else if CCP_V5_Q_OFFSET h \<le> offMmio then
        (let offMmio' = offMmio - CCP_V5_Q_OFFSET h;
             uQueue = offMmio' div CCP_V5_Q_SIZE h;
             offRegQ = offMmio' mod CCP_V5_Q_SIZE h
         in if uQueue < 2 then
              map_option (\<lambda>(v, pThis'). (le32_bytes v, pThis'))
                (pspDevCcpMmioQueueRegRead iom proc h pThis (unat uQueue) offRegQ)
            else Some (pvDst, pThis\<lparr>evts := evts pThis @ [EvPrintf (InvalidQueue offMmio' cbRead uQueue)]\<rparr>))
      else Some (replicate (unat cbRead) 0, pThis))"

definition pspDevCcpMmioWrite ::
  "'io iomgr \<Rightarrow> (('io, 'x) PSPDEVCCP \<Rightarrow> CCP5REQ \<Rightarrow> int \<times> ('io, 'x) PSPDEVCCP) \<Rightarrow> ccp_hdr
    \<Rightarrow> ('io, 'x) PSPDEVCCP \<Rightarrow> u32 \<Rightarrow> size_t \<Rightarrow> u8 list \<Rightarrow> ('io, 'x) PSPDEVCCP option" where
  "pspDevCcpMmioWrite iom proc h pThis offMmio cbWrite pvVal =
     (if cbWrite \<noteq> 4 then
        Some (pThis\<lparr>evts := evts pThis @ [EvPrintf (UnsupportedAccessWidth offMmio cbWrite)]\<rparr>)
      else if CCP_V5_Q_OFFSET h \<le> offMmio then
        (let offMmio' = offMmio - CCP_V5_Q_OFFSET h;
             uQueue = offMmio' div CCP_V5_Q_SIZE h;
             offRegQ = offMmio' mod CCP_V5_Q_SIZE h
         in if uQueue < 2 then
              pspDevCcpMmioQueueRegWrite iom proc h pThis (unat uQueue) offRegQ (le32 pvVal 0)
            else Some (pThis\<lparr>evts := evts pThis @ [EvPrintf (InvalidQueue offMmio' cbWrite uQueue)]\<rparr>))
      else Some pThis)"

definition pspDevCcpMmioRead2 :: "('io, 'x) PSPDEVCCP \<Rightarrow> u32 \<Rightarrow> size_t \<Rightarrow> u8 list
    \<Rightarrow> u8 list \<times> ('io, 'x) PSPDEVCCP" where
  "pspDevCcpMmioRead2 pThis offMmio cbRead pvDst =
     (if cbRead \<noteq> 4 then
        (pvDst, pThis\<lparr>evts := evts pThis @ [EvPrintf (UnsupportedAccessWidth offMmio cbRead)]\<rparr>)
      else if offMmio = 0x28 then (le32_bytes (ucast (cbWrittenLast pThis)), pThis)
      else if offMmio = 0x38 then (le32_bytes 1, pThis)
      else (le32_bytes 0, pThis))"

definition pspDevCcpInit :: "ccp_hdr \<Rightarrow> ('io, 'x) PSPDEVCCP \<Rightarrow> ('io, 'x) PSPDEVCCP" where
  \<comment> \<open>the assignments of \<open>pspDevCcpInit\<close>; the head and tail registers are not assigned\<close>
  "pspDevCcpInit h pThis =
     pThis\<lparr>pOsslShaCtx := None,
           aQueues := (\<lambda>i. if i < 2
                           then (aQueues pThis i)
                                  \<lparr>u32RegCtrl := CCP_V5_Q_REG_CTRL_HALT h,
                                   u32RegSts := CCP_V5_Q_REG_STATUS_SUCCESS h,
                                   u32RegIen := 0, u32RegIsts := 0, fEnabled := False\<rparr>
                           else aQueues pThis i)\<rparr>"

subsection \<open>Memory as the transfer engine sees it\<close>

text \<open>
  A byte that a request can read or write is a cell: a byte of the local storage buffer
  or a byte of PSP-local memory, which lies behind the I/O manager. An LSB address
  selects the cell of its value, a local address the cell of its low 32 bits (the
  truncation of \<open>pspDevCcpXferMemLocalRead\<close> and \<open>pspDevCcpXferMemLocalWrite\<close>).
  What local memory holds is known to the I/O manager alone: \<open>iom_ram iom peek\<close> says that
  the I/O manager behaves as memory whose content is \<open>peek\<close>, that is, that a successful
  read returns the content and changes nothing, and that a successful write of at most
  4096 bytes (the device writes no more in one call) stores its bytes and changes nothing
  else.
\<close>

datatype cell = LsbCell nat | LocalCell u32

definition cell_of :: "xfer_fn \<Rightarrow> CCPADDR \<Rightarrow> cell" where
  "cell_of f a = (case f of XferMemLsb \<Rightarrow> LsbCell (unat a) | _ \<Rightarrow> LocalCell (ucast a))"

fun mem_at :: "('io \<Rightarrow> u32 \<Rightarrow> u8) \<Rightarrow> ('io, 'x) PSPDEVCCP \<Rightarrow> cell \<Rightarrow> u8" where
  "mem_at peek d (LsbCell i) = Lsb d i"
| "mem_at peek d (LocalCell x) = peek (hIoMgr d) x"

definition window :: "('io \<Rightarrow> u32 \<Rightarrow> u8) \<Rightarrow> ('io, 'x) PSPDEVCCP \<Rightarrow> xfer_fn \<Rightarrow> CCPADDR \<Rightarrow> nat \<Rightarrow> u8 list" where
  "window peek d f a n = map (\<lambda>i. mem_at peek d (cell_of f (a + of_nat i))) [0..<n]"

definition cells :: "xfer_fn \<Rightarrow> CCPADDR \<Rightarrow> nat \<Rightarrow> cell set" where
  "cells f a n = (\<lambda>i. cell_of f (a + of_nat i)) ` {..<n}"

definition iom_ram :: "'io iomgr \<Rightarrow> ('io \<Rightarrow> u32 \<Rightarrow> u8) \<Rightarrow> bool" where
  "iom_ram iom peek \<longleftrightarrow>
     (\<forall>io a n bs io'. PSPEmuIoMgrPspAddrRead iom io a n = (0, bs, io') \<longrightarrow>
        bs = map (\<lambda>i. peek io (a + of_nat i)) [0..<unat n] \<and> peek io' = peek io)
   \<and> (\<forall>io a bs io'. length bs \<le> 4096 \<and> PSPEmuIoMgrPspAddrWrite iom io a bs = (0, io') \<longrightarrow>
        (\<forall>x. peek io' x = (if unat (x - a) < length bs then bs ! unat (x - a) else peek io x)))"

subsection \<open>The frame of a request\<close>

definition only_logs :: "('io, 'x) PSPDEVCCP \<Rightarrow> ('io, 'x) PSPDEVCCP \<Rightarrow> bool" where
  \<comment> \<open>frame of a request processor: the queue registers are untouched and nothing but
      \<open>printf\<close> output is added to the events\<close>
  "only_logs s s' \<longleftrightarrow> aQueues s' = aQueues s \<and> (\<exists>ms. evts s' = evts s @ map EvPrintf ms)"

definition ext_frame :: "('io, 'x) ccp_ext \<Rightarrow> bool" where
  \<comment> \<open>the engines that are not modelled keep to the frame as well\<close>
  "ext_frame ext \<longleftrightarrow>
     (\<forall>s r f i e. only_logs s (snd (pspDevCcpReqAesProcess ext s r f i e))
        \<and> only_logs s (snd (pspDevCcpReqZlibProcess ext s r f i e))
        \<and> only_logs s (snd (pspDevCcpReqEccProcess ext s r f i e)))"

subsection \<open>The level of the interrupt line\<close>

fun irq_level :: "bool \<Rightarrow> ccp_event list \<Rightarrow> bool" where
  \<comment> \<open>the level of the line after the recorded calls of \<open>pfnIrqSet\<close>, from the level \<open>l\<close>\<close>
  "irq_level l [] = l"
| "irq_level l (EvIrqSet idPrio idDev fAssert # es) = irq_level fAssert es"
| "irq_level l (EvPrintf msg # es) = irq_level l es"

definition irq_line :: "ccp_event list \<Rightarrow> bool" where
  \<comment> \<open>the line is deasserted before the first call\<close>
  "irq_line es = irq_level False es"

subsection \<open>Guest accesses\<close>

datatype mmio_access = MmioRd u32 size_t | MmioWr u32 size_t "u8 list"

fun mmio_run ::
  "'io iomgr \<Rightarrow> (('io, 'x) PSPDEVCCP \<Rightarrow> CCP5REQ \<Rightarrow> int \<times> ('io, 'x) PSPDEVCCP) \<Rightarrow> ccp_hdr
    \<Rightarrow> ('io, 'x) PSPDEVCCP \<Rightarrow> mmio_access list \<Rightarrow> ('io, 'x) PSPDEVCCP option" where
  "mmio_run iom proc h pThis [] = Some pThis"
| "mmio_run iom proc h pThis (MmioRd off cb # as) =
     (case pspDevCcpMmioRead iom proc h pThis off cb (replicate (unat cb) 0) of
        None \<Rightarrow> None
      | Some (pvDst, pThis') \<Rightarrow> mmio_run iom proc h pThis' as)"
| "mmio_run iom proc h pThis (MmioWr off cb pvVal # as) =
     (case pspDevCcpMmioWrite iom proc h pThis off cb pvVal of
        None \<Rightarrow> None
      | Some pThis' \<Rightarrow> mmio_run iom proc h pThis' as)"

subsection \<open>Instances used for evaluation\<close>

text \<open>
  A header with the register and descriptor layout of the CCP v5: queue banks of 4 KiB
  from offset 4 KiB, the registers at 0x0 (control), 0x4 (tail), 0x8 (head), 0xc
  (interrupt enable), 0x10 (interrupt status) and 0x100 (status), the engine in bits
  20 to 23 of dword 0, its function in bits 5 to 19, init in bit 3 and eom in bit 4.
\<close>

definition ccp_v5_hdr :: ccp_hdr where
  "ccp_v5_hdr =
     \<lparr>CCP_V5_Q_OFFSET = 0x1000, CCP_V5_Q_SIZE = 0x1000,
      CCP_V5_Q_REG_CTRL = 0x0, CCP_V5_Q_REG_HEAD = 0x8, CCP_V5_Q_REG_TAIL = 0x4,
      CCP_V5_Q_REG_STATUS = 0x100, CCP_V5_Q_REG_IEN = 0xc, CCP_V5_Q_REG_ISTS = 0x10,
      CCP_V5_Q_REG_CTRL_RUN = 1, CCP_V5_Q_REG_CTRL_HALT = 2,
      CCP_V5_Q_REG_STATUS_SUCCESS = 0, CCP_V5_Q_REG_STATUS_ERROR = 1,
      CCP_V5_Q_REG_ISTS_COMPLETION = 1, CCP_V5_Q_REG_ISTS_ERROR = 2,
      CCP_V5_Q_REG_ISTS_Q_STOP = 4, CCP_V5_Q_REG_ISTS_Q_EMPTY = 8,
      CCP_V5_MEM_TYPE_GET = (\<lambda>x. x AND 3),
      CCP_V5_MEM_TYPE_SYSTEM = 0, CCP_V5_MEM_TYPE_SB = 1, CCP_V5_MEM_TYPE_LOCAL = 2,
      CCP_V5_MEM_LSB_CTX_ID_GET = (\<lambda>x. ucast (drop_bit 2 x AND 0xff)),
      CCP_V5_ENGINE_GET = (\<lambda>x. drop_bit 20 x AND 0xf),
      CCP_V5_ENGINE_FUNC_GET = (\<lambda>x. drop_bit 5 x AND 0x7fff),
      CCP_V5_ENGINE_INIT_GET = (\<lambda>x. drop_bit 3 x AND 1 \<noteq> 0),
      CCP_V5_ENGINE_EOM_GET = (\<lambda>x. drop_bit 4 x AND 1 \<noteq> 0),
      CCP_V5_ENGINE_AES = 0, CCP_V5_ENGINE_XTS_AES128 = 1, CCP_V5_ENGINE_DES3 = 2,
      CCP_V5_ENGINE_SHA = 3, CCP_V5_ENGINE_RSA = 4, CCP_V5_ENGINE_PASSTHRU = 5,
      CCP_V5_ENGINE_ZLIB_DECOMP = 6, CCP_V5_ENGINE_ECC = 7,
      CCP_V5_ENGINE_PASSTHRU_BYTESWAP_GET = (\<lambda>x. ucast (x AND 3)),
      CCP_V5_ENGINE_PASSTHRU_BITWISE_GET = (\<lambda>x. ucast (drop_bit 2 x AND 7)),
      CCP_V5_ENGINE_PASSTHRU_REFLECT_GET = (\<lambda>x. ucast (drop_bit 5 x AND 3)),
      CCP_V5_ENGINE_PASSTHRU_BYTESWAP_NOOP = 0, CCP_V5_ENGINE_PASSTHRU_BYTESWAP_256BIT = 2,
      CCP_V5_ENGINE_PASSTHRU_BITWISE_NOOP = 0,
      CCP_V5_ENGINE_SHA_TYPE_GET = (\<lambda>x. drop_bit 10 x AND 0xf),
      CCP_V5_ENGINE_SHA_TYPE_256 = 3, CCP_V5_ENGINE_SHA_TYPE_384 = 4,
      CCP_V5_ENGINE_RSA_SZ_GET = (\<lambda>x. ucast (drop_bit 3 x AND 0xfff)),
      CCP_V5_ENGINE_RSA_MODE_GET = (\<lambda>x. ucast (x AND 7))\<rparr>"

text \<open>An I/O manager that is plain memory: every access succeeds.\<close>

definition ram_read :: "(u32 \<Rightarrow> u8) \<Rightarrow> u32 \<Rightarrow> size_t \<Rightarrow> int \<times> u8 list \<times> (u32 \<Rightarrow> u8)" where
  "ram_read m a n = (0, map (\<lambda>i. m (a + of_nat i)) [0..<unat n], m)"

fun ram_store :: "(u32 \<Rightarrow> u8) \<Rightarrow> u32 \<Rightarrow> u8 list \<Rightarrow> (u32 \<Rightarrow> u8)" where
  "ram_store m a [] = m"
| "ram_store m a (b # bs) = ram_store (m(a := b)) (a + 1) bs"

definition ram_write :: "(u32 \<Rightarrow> u8) \<Rightarrow> u32 \<Rightarrow> u8 list \<Rightarrow> int \<times> (u32 \<Rightarrow> u8)" where
  "ram_write m a bs = (0, ram_store m a bs)"

definition ram_iom :: "(u32 \<Rightarrow> u8) iomgr" where
  "ram_iom = \<lparr>PSPEmuIoMgrPspAddrRead = ram_read, PSPEmuIoMgrPspAddrWrite = ram_write\<rparr>"

text \<open>
  External parts for evaluation: a digest that pads or cuts its input to the digest
  size, RSA as modular exponentiation on big-endian numbers of the size of the modulus,
  a stack filled with 0xcc, and unmodelled engines that fail.
\<close>

fun be_nat :: "u8 list \<Rightarrow> nat" where
  "be_nat [] = 0"
| "be_nat (b # bs) = unat b * 256 ^ length bs + be_nat bs"

fun nat_be :: "nat \<Rightarrow> nat \<Rightarrow> u8 list" where
  "nat_be 0 v = []"
| "nat_be (Suc k) v = of_nat (v div 256 ^ k) # nat_be k (v mod 256 ^ k)"

fun num_bytes :: "nat \<Rightarrow> nat" where
  "num_bytes v = (if v = 0 then 0 else Suc (num_bytes (v div 256)))"

definition rsa_nopad :: "nat \<Rightarrow> u8 list \<Rightarrow> nat \<Rightarrow> nat \<Rightarrow> int \<times> u8 list" where
  "rsa_nopad flen from n e =
     (if flen = num_bytes n \<and> be_nat (take flen from) < n
      then (int flen, nat_be flen (be_nat (take flen from) ^ e mod n))
      else (-1, []))"

definition ext_eval :: "('io, 'x) ccp_ext" where
  "ext_eval =
     \<lparr>EVP_Digest = (\<lambda>md m. take (EVP_MD_size md) (m @ replicate (EVP_MD_size md) 0)),
      RSA_public_encrypt = rsa_nopad,
      stack = (\<lambda>_. 0xcc),
      pspDevCcpReqAesProcess = (\<lambda>pThis pReq uFunc fInit fEom. (-1, pThis)),
      pspDevCcpReqZlibProcess = (\<lambda>pThis pReq uFunc fInit fEom. (-1, pThis)),
      pspDevCcpReqEccProcess = (\<lambda>pThis pReq uFunc fInit fEom. (-1, pThis))\<rparr>"

definition q_reset :: CCPQUEUE where
  "q_reset = \<lparr>u32RegCtrl = 2, u32RegReqTail = 0, u32RegReqHead = 0, u32RegSts = 0,
     u32RegIen = 0, u32RegIsts = 0, fEnabled = False\<rparr>"

definition dev_zero :: "'io \<Rightarrow> ('io, unit) PSPDEVCCP" where
  "dev_zero io = \<lparr>hIoMgr = io, aQueues = (\<lambda>_. q_reset), Lsb = (\<lambda>_. 0), pOsslShaCtx = None,
     engx = (), cbWrittenLast = 0, evts = []\<rparr>"

definition proc_eval ::
  "(u32 \<Rightarrow> u8, unit) PSPDEVCCP \<Rightarrow> CCP5REQ \<Rightarrow> int \<times> (u32 \<Rightarrow> u8, unit) PSPDEVCCP" where
  "proc_eval = pspDevCcpReqProcess ram_iom ccp_v5_hdr ext_eval"

definition dev_run0 :: "(u32 \<Rightarrow> u8, unit) PSPDEVCCP" where
  \<comment> \<open>queue registers after a reset, all interrupts enabled, the queue started, the ring empty\<close>
  "dev_run0 = (dev_zero (\<lambda>_. 0))
     \<lparr>aQueues := (\<lambda>_. q_reset\<lparr>u32RegIen := 0xf, fEnabled := True\<rparr>)\<rparr>"

definition mem_fail :: "u32 \<Rightarrow> u8" where
  \<comment> \<open>two descriptors at 0x100: a PASSTHRU copy of no bytes, then a DES3 request\<close>
  "mem_fail = (\<lambda>a. if a = 0x102 then 0x50 else if a = 0x122 then 0x20 else 0)"

definition dev_fail :: "(u32 \<Rightarrow> u8, unit) PSPDEVCCP" where
  "dev_fail = (dev_zero mem_fail)
     \<lparr>aQueues := (\<lambda>_. q_reset\<lparr>u32RegReqHead := 0x100, u32RegReqTail := 0x160, fEnabled := True\<rparr>)\<rparr>"

definition dev_ack :: "(u32 \<Rightarrow> u8, unit) PSPDEVCCP" where
  \<comment> \<open>a started queue with an empty ring, the completion interrupt enabled, and the
      interrupt status left by an earlier run\<close>
  "dev_ack = (dev_zero (\<lambda>_. 0))
     \<lparr>aQueues := (\<lambda>_. q_reset\<lparr>u32RegIen := 1, u32RegIsts := 0xc, fEnabled := True\<rparr>)\<rparr>"

definition dev_pending :: "(u32 \<Rightarrow> u8, unit) PSPDEVCCP" where
  \<comment> \<open>a started queue with an empty ring, no interrupt enabled, all status bits pending\<close>
  "dev_pending = (dev_zero (\<lambda>_. 0))
     \<lparr>aQueues := (\<lambda>_. q_reset\<lparr>u32RegIsts := 0xf, fEnabled := True\<rparr>)\<rparr>"

section \<open>Properties\<close>

lemma lsb_check_iff:
  fixes a n :: "64 word"
  assumes "unat n < 2 ^ 64 - 4096"
  shows "(a < 4096 \<and> a + n \<le> 4096) \<longleftrightarrow> (unat a < 4096 \<and> unat a + unat n \<le> 4096)"
proof (cases "a < 4096")
  case True
  then have a: "unat a < 4096" by (simp add: word_less_nat_alt)
  with assms have "unat a + unat n < 2 ^ 64" by simp
  then have "unat (a + n) = unat a + unat n"
    by (simp add: unat_word_ariths)
  with True a show ?thesis by (simp add: word_le_nat_alt)
next
  case False
  then show ?thesis by (simp add: word_less_nat_alt)
qed

lemma memcpy_from_length [simp]: "length (memcpy_from arr off n) = n"
  by (simp add: memcpy_from_def)

lemma memcpy_from_nth [simp]: "i < n \<Longrightarrow> memcpy_from arr off n ! i = arr (off + i)"
  by (simp add: memcpy_from_def)

lemma memcpy_to_inside: "i < length src \<Longrightarrow> memcpy_to arr off src (off + i) = src ! i"
  by (simp add: memcpy_to_def)

lemma memcpy_to_outside: "j < off \<or> off + length src \<le> j \<Longrightarrow> memcpy_to arr off src j = arr j"
  by (auto simp: memcpy_to_def)

lemma unat_of_nat_len64: "n < 2 ^ 64 - 4096 \<Longrightarrow> unat (of_nat n :: 64 word) = n"
  by (simp add: unat_of_nat)

subsection \<open>C4: bounds of the local storage buffer\<close>

text \<open>
  C4. An LSB read or write at address \<open>a\<close> of \<open>n\<close> bytes fails, leaving all 4096 bytes
  as they were, when \<open>a \<ge> 4096\<close> or \<open>a + n > 4096\<close>; otherwise it succeeds as a plain
  \<open>memcpy\<close>: the read returns the bytes at \<open>a, \<dots>, a + n - 1\<close> and changes nothing, the
  write stores its bytes there and leaves every byte outside \<open>[a, a + n)\<close> and every other
  field of the device as it was. The C sum \<open>CcpAddr + cb\<close> is a 64-bit sum; the byte
  count is assumed to be below \<open>2^64 - 4096\<close>, as the length of any buffer is, so that it
  cannot wrap for an address inside the buffer.
\<close>

theorem lsb_access_bounds:
  assumes "unat n < 2 ^ 64 - 4096" and "length src < 2 ^ 64 - 4096"
  shows "(if 4096 \<le> unat a \<or> 4096 < unat a + unat n
          then fst (pspDevCcpXferMemLsbRead d a n) = -1
             \<and> Lsb (snd (snd (pspDevCcpXferMemLsbRead d a n))) = Lsb d
          else pspDevCcpXferMemLsbRead d a n = (0, memcpy_from (Lsb d) (unat a) (unat n), d)
             \<and> length (memcpy_from (Lsb d) (unat a) (unat n)) = unat n
             \<and> (\<forall>i < unat n. memcpy_from (Lsb d) (unat a) (unat n) ! i = Lsb d (unat a + i)))
       \<and> (if 4096 \<le> unat a \<or> 4096 < unat a + length src
          then fst (pspDevCcpXferMemLsbWrite d a src) = -1
             \<and> Lsb (snd (pspDevCcpXferMemLsbWrite d a src)) = Lsb d
          else (\<exists>lsb'. pspDevCcpXferMemLsbWrite d a src = (0, d\<lparr>Lsb := lsb'\<rparr>)
             \<and> (\<forall>i < length src. lsb' (unat a + i) = src ! i)
             \<and> (\<forall>j. j < unat a \<or> unat a + length src \<le> j \<longrightarrow> lsb' j = Lsb d j)))"
proof -
  have rd: "(a < 4096 \<and> a + n \<le> 4096) \<longleftrightarrow> (unat a < 4096 \<and> unat a + unat n \<le> 4096)"
    using assms(1) by (rule lsb_check_iff)
  have len: "unat (of_nat (length src) :: 64 word) = length src"
    using assms(2) by (rule unat_of_nat_len64)
  have "unat (of_nat (length src) :: 64 word) < 2 ^ 64 - 4096"
    using assms(2) len by simp
  then have "(a < 4096 \<and> a + of_nat (length src) \<le> 4096)
      \<longleftrightarrow> (unat a < 4096 \<and> unat a + unat (of_nat (length src) :: 64 word) \<le> 4096)"
    by (rule lsb_check_iff)
  then have wr: "(a < 4096 \<and> a + of_nat (length src) \<le> 4096)
      \<longleftrightarrow> (unat a < 4096 \<and> unat a + length src \<le> 4096)"
    using len by simp
  have R: "(if 4096 \<le> unat a \<or> 4096 < unat a + unat n
          then fst (pspDevCcpXferMemLsbRead d a n) = -1
             \<and> Lsb (snd (snd (pspDevCcpXferMemLsbRead d a n))) = Lsb d
          else pspDevCcpXferMemLsbRead d a n = (0, memcpy_from (Lsb d) (unat a) (unat n), d)
             \<and> length (memcpy_from (Lsb d) (unat a) (unat n)) = unat n
             \<and> (\<forall>i < unat n. memcpy_from (Lsb d) (unat a) (unat n) ! i = Lsb d (unat a + i)))"
    using rd by (auto simp: pspDevCcpXferMemLsbRead_def)
  have W: "(if 4096 \<le> unat a \<or> 4096 < unat a + length src
          then fst (pspDevCcpXferMemLsbWrite d a src) = -1
             \<and> Lsb (snd (pspDevCcpXferMemLsbWrite d a src)) = Lsb d
          else (\<exists>lsb'. pspDevCcpXferMemLsbWrite d a src = (0, d\<lparr>Lsb := lsb'\<rparr>)
             \<and> (\<forall>i < length src. lsb' (unat a + i) = src ! i)
             \<and> (\<forall>j. j < unat a \<or> unat a + length src \<le> j \<longrightarrow> lsb' j = Lsb d j)))"
  proof (cases "4096 \<le> unat a \<or> 4096 < unat a + length src")
    case True
    with wr show ?thesis by (auto simp: pspDevCcpXferMemLsbWrite_def Let_def)
  next
    case False
    with wr have ok: "a < 4096 \<and> a + of_nat (length src) \<le> 4096" by auto
    have "pspDevCcpXferMemLsbWrite d a src = (0, d\<lparr>Lsb := memcpy_to (Lsb d) (unat a) src\<rparr>)"
      using ok by (simp add: pspDevCcpXferMemLsbWrite_def Let_def)
    moreover have "\<forall>i < length src. memcpy_to (Lsb d) (unat a) src (unat a + i) = src ! i"
      by (simp add: memcpy_to_inside)
    moreover have "\<forall>j. j < unat a \<or> unat a + length src \<le> j
        \<longrightarrow> memcpy_to (Lsb d) (unat a) src j = Lsb d j"
      by (simp add: memcpy_to_outside)
    ultimately show ?thesis using False by auto
  qed
  from R W show ?thesis by (rule conjI)
qed

theorem lsb_access_bounds_witness:
  "unat (2 :: size_t) < 2 ^ 64 - 4096 \<and> length [1, 2 :: u8] < 2 ^ 64 - 4096
   \<and> pspDevCcpXferMemLsbRead (dev_zero ()) 4094 2 = (0, [0, 0], dev_zero ())
   \<and> fst (pspDevCcpXferMemLsbWrite (dev_zero ()) 4094 [1, 2]) = 0
   \<and> fst (pspDevCcpXferMemLsbRead (dev_zero ()) 4095 2) = -1
   \<and> fst (pspDevCcpXferMemLsbWrite (dev_zero ()) 4095 [1, 2]) = -1
   \<and> Lsb (snd (pspDevCcpXferMemLsbWrite (dev_zero ()) 4095 [1, 2])) = Lsb (dev_zero ())"
proof -
  have h1: "unat (2 :: size_t) < 2 ^ 64 - 4096" by simp
  have h2: "length [1, 2 :: u8] < 2 ^ 64 - 4096" by simp
  have ok: "pspDevCcpXferMemLsbRead (dev_zero ()) 4094 2 = (0, [0, 0], dev_zero ())
      \<and> fst (pspDevCcpXferMemLsbWrite (dev_zero ()) 4094 [1, 2]) = 0"
    using lsb_access_bounds [OF h1 h2, of 4094 "dev_zero ()"]
    by (auto simp: memcpy_from_def dev_zero_def upt_rec)
  have bad: "fst (pspDevCcpXferMemLsbRead (dev_zero ()) 4095 2) = -1
      \<and> fst (pspDevCcpXferMemLsbWrite (dev_zero ()) 4095 [1, 2]) = -1
      \<and> Lsb (snd (pspDevCcpXferMemLsbWrite (dev_zero ()) 4095 [1, 2])) = Lsb (dev_zero ())"
    using lsb_access_bounds [OF h1 h2, of 4095 "dev_zero ()"] by simp
  from h1 h2 ok bad show ?thesis by simp
qed

subsection \<open>The queue executor\<close>

lemma queue_upd_simps [simp]:
  "aQueues (queue_upd d iq f) = (aQueues d)(iq := f (aQueues d iq))"
  "evts (queue_upd d iq f) = evts d"
  "hIoMgr (queue_upd d iq f) = hIoMgr d"
  "Lsb (queue_upd d iq f) = Lsb d"
  "pOsslShaCtx (queue_upd d iq f) = pOsslShaCtx d"
  "cbWrittenLast (queue_upd d iq f) = cbWrittenLast d"
  "engx (queue_upd d iq f) = engx d"
  by (simp_all add: queue_upd_def)

lemma queue_drain_stop:
  assumes "tail \<noteq> hk" and "queue_iter iom proc h iq hk dk = (False, hk', dF)"
  shows "queue_drain iom proc h iq tail hk dk = Some (hk', dF)"
  using assms by (subst queue_drain.simps) simp

lemma queue_drain_step:
  assumes "tail \<noteq> hx" and "queue_iter iom proc h iq hx d = (True, hx', d')"
  shows "queue_drain iom proc h iq tail hx d = queue_drain iom proc h iq tail hx' d'"
  using assms by (subst queue_drain.simps) simp

lemma queue_drain_empty: "queue_drain iom proc h iq tail tail d = Some (tail, d)"
  by (subst queue_drain.simps) simp

lemma queue_drain_iters:
  "queue_iters iom proc h iq n tail hx d = Some (hk, dk)
    \<Longrightarrow> queue_drain iom proc h iq tail hx d = queue_drain iom proc h iq tail hk dk"
proof (induction n arbitrary: hx d)
  case 0
  then show ?case by simp
next
  case (Suc n)
  from Suc.prems have ne: "tail \<noteq> hx" by (auto split: if_splits)
  obtain c hx' d' where it: "queue_iter iom proc h iq hx d = (c, hx', d')"
    by (cases "queue_iter iom proc h iq hx d") auto
  with Suc.prems ne have c: c and rest: "queue_iters iom proc h iq n tail hx' d' = Some (hk, dk)"
    by (auto split: if_splits)
  from ne it c have "queue_drain iom proc h iq tail hx d = queue_drain iom proc h iq tail hx' d'"
    by (simp add: queue_drain_step)
  with Suc.IH [OF rest] show ?case by simp
qed

lemma queue_iter_head:
  "queue_iter iom proc h iq hx d = (c, hx', d') \<Longrightarrow> hx' = (if c then hx + 32 else hx)"
  by (auto simp: queue_iter_def split: prod.splits if_splits)

lemma word32_step:
  fixes x :: u32
  assumes "x \<noteq> 0" and "32 dvd unat x"
  shows "unat (x - 32) = unat x - 32" and "32 \<le> unat x"
proof -
  from assms(1) have "unat x \<noteq> 0" by (simp add: unat_eq_0)
  with assms(2) show le: "32 \<le> unat x" by (auto simp: dvd_def)
  then have "(32 :: u32) \<le> x" by (simp add: word_le_nat_alt)
  then show "unat (x - 32) = unat x - 32" by (simp add: unat_sub)
qed

lemma queue_drain_terminates:
  "32 dvd unat (tail - hx) \<Longrightarrow> queue_drain iom proc h iq tail hx d \<noteq> None"
proof (induction "unat (tail - hx)" arbitrary: hx d rule: less_induct)
  case less
  show ?case
  proof (cases "tail = hx")
    case True
    then show ?thesis by (simp add: queue_drain_empty)
  next
    case False
    obtain c hx' d' where it: "queue_iter iom proc h iq hx d = (c, hx', d')"
      by (cases "queue_iter iom proc h iq hx d") auto
    show ?thesis
    proof (cases c)
      case False
      with \<open>tail \<noteq> hx\<close> it show ?thesis by (simp add: queue_drain_stop)
    next
      case True
      with it have hx': "hx' = hx + 32" by (auto dest: queue_iter_head)
      from \<open>tail \<noteq> hx\<close> have nz: "tail - hx \<noteq> 0" by simp
      have eq: "tail - hx' = (tail - hx) - 32" by (simp add: hx')
      from word32_step [OF nz less.prems]
      have u: "unat (tail - hx') = unat (tail - hx) - 32" and ge: "32 \<le> unat (tail - hx)"
        by (simp_all add: eq)
      have lt: "unat (tail - hx') < unat (tail - hx)" using u ge by simp
      have dv: "32 dvd unat (tail - hx')" using u ge less.prems by simp
      from less.hyps [OF lt dv] have "queue_drain iom proc h iq tail hx' d' \<noteq> None" .
      with \<open>tail \<noteq> hx\<close> it True show ?thesis by (simp add: queue_drain_step)
    qed
  qed
qed

lemma word_or_and_self [simp]: "((x :: 'a::len word) OR y) AND y = y"
  by (auto simp: bit_eq_iff bit_and_iff bit_or_iff)

lemma word_or_or_and_mid: "((x :: 'a::len word) OR y OR z) AND y = y"
  by (auto simp: bit_eq_iff bit_and_iff bit_or_iff)

lemma queue_iter_stop_regs:
  assumes "queue_iter iom proc h iq hx d = (False, hx', d')"
  shows "u32RegSts (aQueues d' iq) = CCP_V5_Q_REG_STATUS_ERROR h"
    and "u32RegIsts (aQueues d' iq) AND CCP_V5_Q_REG_ISTS_ERROR h = CCP_V5_Q_REG_ISTS_ERROR h"
    and "hx' = hx"
  using assms by (auto simp: queue_iter_def split: prod.splits if_splits)

lemma queue_drain_post:
  assumes "queue_drain iom proc h iq tail hx d = Some r"
  shows "fst r = tail \<or>
     (u32RegSts (aQueues (snd r) iq) = CCP_V5_Q_REG_STATUS_ERROR h
      \<and> u32RegIsts (aQueues (snd r) iq) AND CCP_V5_Q_REG_ISTS_ERROR h = CCP_V5_Q_REG_ISTS_ERROR h)"
proof (rule queue_drain.raw_induct [where P = "\<lambda>iom proc h iq tail hx d r. fst r = tail \<or>
     (u32RegSts (aQueues (snd r) iq) = CCP_V5_Q_REG_STATUS_ERROR h
      \<and> u32RegIsts (aQueues (snd r) iq) AND CCP_V5_Q_REG_ISTS_ERROR h = CCP_V5_Q_REG_ISTS_ERROR h)",
     OF _ assms], goal_cases)
  case (1 qd iom proc h iq tail hx d r)
  show ?case
  proof (cases "tail = hx")
    case True
    with 1(2) show ?thesis by auto
  next
    case False
    obtain c hx' d' where it: "queue_iter iom proc h iq hx d = (c, hx', d')"
      by (cases "queue_iter iom proc h iq hx d") auto
    show ?thesis
    proof (cases c)
      case True
      with False it 1(2) have "qd iom proc h iq tail hx' d' = Some r" by simp
      then show ?thesis by (rule 1(1))
    next
      case c: False
      with False it 1(2) have r: "r = (hx', d')" by simp
      from it c queue_iter_stop_regs [of iom proc h iq hx d hx' d'] show ?thesis
        by (simp add: r)
    qed
  qed
qed

lemma word_or3_and1: "(((x :: 'a::len word) OR e) OR s) AND e = e"
  by (auto simp: bit_eq_iff bit_and_iff bit_or_iff)

lemma word_or_nest_and [simp]:
  "((x :: 'a::len word) OR (y OR z)) AND y = y"
  "((x :: 'a::len word) OR (y OR z)) AND z = z"
  by (auto simp: bit_eq_iff bit_and_iff bit_or_iff)


subsection \<open>C3: the state after draining\<close>

text \<open>
  C3. A run of the executor on an enabled queue returns whenever the tail is a multiple of
  32 bytes ahead of the head, and whenever it returns the loop has ended with the head at
  the tail or with the status \<open>ERROR\<close>; then, with \<open>d1\<close> the device as the loop leaves it
  and \<open>hx\<close> the head the loop stopped at: \<open>HALT\<close> is set in the control register,
  \<open>Q_STOP\<close> is set in the interrupt status, the executor adds \<open>Q_EMPTY\<close> to the
  interrupt status exactly when \<open>hx\<close> is the tail (it clears no bit), the head register
  is \<open>hx\<close>, and \<open>pfnIrqSet(0, 0x15, true)\<close> is called exactly when the interrupt enable
  and interrupt status registers then have a common bit.
\<close>

theorem queue_run_halt:
  assumes en: "fEnabled (aQueues d iq)"
  shows "(32 dvd unat (u32RegReqTail (aQueues d iq) - u32RegReqHead (aQueues d iq))
           \<longrightarrow> pspDevCcpQueueRunMaybe iom proc h d iq \<noteq> None)
     \<and> (\<forall>d'. pspDevCcpQueueRunMaybe iom proc h d iq = Some d' \<longrightarrow>
          (\<exists>hx d1.
              queue_drain iom proc h iq (u32RegReqTail (aQueues d iq)) (u32RegReqHead (aQueues d iq))
                (queue_upd d iq (\<lambda>q. q\<lparr>u32RegCtrl := u32RegCtrl q AND NOT (CCP_V5_Q_REG_CTRL_HALT h)\<rparr>))
                = Some (hx, d1)
            \<and> (hx = u32RegReqTail (aQueues d iq)
                 \<or> u32RegSts (aQueues d' iq) = CCP_V5_Q_REG_STATUS_ERROR h)
            \<and> u32RegCtrl (aQueues d' iq) AND CCP_V5_Q_REG_CTRL_HALT h = CCP_V5_Q_REG_CTRL_HALT h
            \<and> u32RegIsts (aQueues d' iq) AND CCP_V5_Q_REG_ISTS_Q_STOP h = CCP_V5_Q_REG_ISTS_Q_STOP h
            \<and> u32RegIsts (aQueues d' iq) =
                 u32RegIsts (aQueues d1 iq) OR CCP_V5_Q_REG_ISTS_Q_STOP h
                   OR (if hx = u32RegReqTail (aQueues d iq) then CCP_V5_Q_REG_ISTS_Q_EMPTY h else 0)
            \<and> u32RegReqHead (aQueues d' iq) = hx
            \<and> evts d' = evts d1 @
                 (if u32RegIen (aQueues d' iq) AND u32RegIsts (aQueues d' iq) \<noteq> 0
                  then [EvIrqSet 0 0x15 True] else [])))"
proof (intro conjI impI allI)
  let ?tail = "u32RegReqTail (aQueues d iq)" and ?head = "u32RegReqHead (aQueues d iq)"
  let ?d0 = "queue_upd d iq (\<lambda>q. q\<lparr>u32RegCtrl := u32RegCtrl q AND NOT (CCP_V5_Q_REG_CTRL_HALT h)\<rparr>)"
  {
    assume "32 dvd unat (?tail - ?head)"
    then have "queue_drain iom proc h iq ?tail ?head ?d0 \<noteq> None"
      by (rule queue_drain_terminates)
    then show "pspDevCcpQueueRunMaybe iom proc h d iq \<noteq> None"
      using en by (auto simp: pspDevCcpQueueRunMaybe_def Let_def)
  }
  fix d'
  assume run: "pspDevCcpQueueRunMaybe iom proc h d iq = Some d'"
  then obtain hx d1 where dr: "queue_drain iom proc h iq ?tail ?head ?d0 = Some (hx, d1)"
    and d': "d' = queue_halt h iq ?tail hx d1"
    using en by (auto simp: pspDevCcpQueueRunMaybe_def Let_def split: option.splits)
  from queue_drain_post [OF dr]
  have post: "hx = ?tail \<or> u32RegSts (aQueues d1 iq) = CCP_V5_Q_REG_STATUS_ERROR h" by auto
  have "(hx = ?tail \<or> u32RegSts (aQueues d' iq) = CCP_V5_Q_REG_STATUS_ERROR h)
      \<and> u32RegCtrl (aQueues d' iq) AND CCP_V5_Q_REG_CTRL_HALT h = CCP_V5_Q_REG_CTRL_HALT h
      \<and> u32RegIsts (aQueues d' iq) AND CCP_V5_Q_REG_ISTS_Q_STOP h = CCP_V5_Q_REG_ISTS_Q_STOP h
      \<and> u32RegIsts (aQueues d' iq) =
           u32RegIsts (aQueues d1 iq) OR CCP_V5_Q_REG_ISTS_Q_STOP h
             OR (if hx = ?tail then CCP_V5_Q_REG_ISTS_Q_EMPTY h else 0)
      \<and> u32RegReqHead (aQueues d' iq) = hx
      \<and> evts d' = evts d1 @
           (if u32RegIen (aQueues d' iq) AND u32RegIsts (aQueues d' iq) \<noteq> 0
            then [EvIrqSet 0 0x15 True] else [])"
    using post unfolding d' by (auto simp add: queue_halt_def Let_def word_or3_and1 or.assoc)
  with dr show "\<exists>hx d1.
              queue_drain iom proc h iq ?tail ?head ?d0 = Some (hx, d1)
            \<and> (hx = ?tail \<or> u32RegSts (aQueues d' iq) = CCP_V5_Q_REG_STATUS_ERROR h)
            \<and> u32RegCtrl (aQueues d' iq) AND CCP_V5_Q_REG_CTRL_HALT h = CCP_V5_Q_REG_CTRL_HALT h
            \<and> u32RegIsts (aQueues d' iq) AND CCP_V5_Q_REG_ISTS_Q_STOP h = CCP_V5_Q_REG_ISTS_Q_STOP h
            \<and> u32RegIsts (aQueues d' iq) =
                 u32RegIsts (aQueues d1 iq) OR CCP_V5_Q_REG_ISTS_Q_STOP h
                   OR (if hx = ?tail then CCP_V5_Q_REG_ISTS_Q_EMPTY h else 0)
            \<and> u32RegReqHead (aQueues d' iq) = hx
            \<and> evts d' = evts d1 @
                 (if u32RegIen (aQueues d' iq) AND u32RegIsts (aQueues d' iq) \<noteq> 0
                  then [EvIrqSet 0 0x15 True] else [])"
    by blast
qed

theorem queue_run_halt_witness:
  "fEnabled (aQueues dev_run0 0)
   \<and> pspDevCcpQueueRunMaybe ram_iom proc_eval ccp_v5_hdr dev_run0 0 \<noteq> None
   \<and> map_option (\<lambda>d. (u32RegCtrl (aQueues d 0), u32RegIsts (aQueues d 0), evts d))
        (pspDevCcpQueueRunMaybe ram_iom proc_eval ccp_v5_hdr dev_run0 0)
       = Some (2, 0xc, [EvIrqSet 0 0x15 True])"
proof -
  have en: "fEnabled (aQueues dev_run0 0)"
    by (simp add: dev_run0_def q_reset_def)
  have al: "32 dvd unat (u32RegReqTail (aQueues dev_run0 0) - u32RegReqHead (aQueues dev_run0 0))"
    by (simp add: dev_run0_def q_reset_def)
  have "pspDevCcpQueueRunMaybe ram_iom proc_eval ccp_v5_hdr dev_run0 0 \<noteq> None"
    using queue_run_halt [OF en, of ram_iom proc_eval ccp_v5_hdr] al by blast
  moreover have "map_option (\<lambda>d. (u32RegCtrl (aQueues d 0), u32RegIsts (aQueues d 0), evts d))
        (pspDevCcpQueueRunMaybe ram_iom proc_eval ccp_v5_hdr dev_run0 0)
       = Some (2, 0xc, [EvIrqSet 0 0x15 True])"
    by code_simp
  ultimately show ?thesis using en by simp
qed

subsection \<open>C1: a failing descriptor\<close>

text \<open>
  C1 says that the head register ends up 32 bytes past a failing descriptor. The loop
  leaves by \<open>break\<close> before it advances the head: with a successful (empty) PASSTHRU
  request at 0x100 and a DES3 request, which fails, at 0x120, the run ends with the
  status \<open>ERROR\<close> and the head register at 0x120, not at 0x140.
\<close>

theorem queue_error_head_counterexample:
  "map_option (\<lambda>d. (u32RegSts (aQueues d 0), u32RegReqHead (aQueues d 0)))
     (pspDevCcpQueueRunMaybe ram_iom proc_eval ccp_v5_hdr dev_fail 0) = Some (1, 0x120)
   \<and> map_option (\<lambda>d. u32RegReqHead (aQueues d 0))
     (pspDevCcpQueueRunMaybe ram_iom proc_eval ccp_v5_hdr dev_fail 0) \<noteq> Some (0x120 + 32)"
  by code_simp


text \<open>
  C1, as the code has it. Let the executor run on an enabled queue, let \<open>n\<close> descriptors
  be executed with success, and let the descriptor then fetched at \<open>hk\<close> (not the tail)
  fail in the request processor. Then the run returns; it does nothing more than the
  statements after the loop on the device as the failed request left it (no further
  descriptor is fetched or executed); the status register is \<open>ERROR\<close>, the \<open>ERROR\<close> bit is
  set in the interrupt status, and the head register is \<open>hk\<close>, the address of the
  failing descriptor.
\<close>

theorem queue_error_stops:
  assumes en: "fEnabled (aQueues d iq)"
    and iters: "queue_iters iom proc h iq n (u32RegReqTail (aQueues d iq)) (u32RegReqHead (aQueues d iq))
        (queue_upd d iq (\<lambda>q. q\<lparr>u32RegCtrl := u32RegCtrl q AND NOT (CCP_V5_Q_REG_CTRL_HALT h)\<rparr>))
        = Some (hk, dk)"
    and ne: "u32RegReqTail (aQueues d iq) \<noteq> hk"
    and rd: "PSPEmuIoMgrPspAddrRead iom (hIoMgr dk) hk 32 = (0, Req, io')"
    and pr: "proc (dk\<lparr>hIoMgr := io'\<rparr>) (req_of_bytes Req) = (rc, dP)"
    and rc: "rc \<noteq> 0"
  shows "pspDevCcpQueueRunMaybe iom proc h d iq =
           Some (queue_halt h iq (u32RegReqTail (aQueues d iq)) hk
                  (queue_upd dP iq (\<lambda>q. q\<lparr>u32RegSts := CCP_V5_Q_REG_STATUS_ERROR h,
                      u32RegIsts := u32RegIsts q OR CCP_V5_Q_REG_ISTS_ERROR h\<rparr>)))
       \<and> (\<forall>dF. pspDevCcpQueueRunMaybe iom proc h d iq = Some dF \<longrightarrow>
             u32RegSts (aQueues dF iq) = CCP_V5_Q_REG_STATUS_ERROR h
           \<and> u32RegIsts (aQueues dF iq) AND CCP_V5_Q_REG_ISTS_ERROR h = CCP_V5_Q_REG_ISTS_ERROR h
           \<and> u32RegReqHead (aQueues dF iq) = hk
           \<and> hIoMgr dF = hIoMgr dP \<and> Lsb dF = Lsb dP \<and> pOsslShaCtx dF = pOsslShaCtx dP)"
proof -
  let ?tail = "u32RegReqTail (aQueues d iq)"
  let ?err = "queue_upd dP iq (\<lambda>q. q\<lparr>u32RegSts := CCP_V5_Q_REG_STATUS_ERROR h,
                      u32RegIsts := u32RegIsts q OR CCP_V5_Q_REG_ISTS_ERROR h\<rparr>)"
  have it: "queue_iter iom proc h iq hk dk = (False, hk, ?err)"
    using rd pr rc by (simp add: queue_iter_def)
  have "queue_drain iom proc h iq ?tail (u32RegReqHead (aQueues d iq))
          (queue_upd d iq (\<lambda>q. q\<lparr>u32RegCtrl := u32RegCtrl q AND NOT (CCP_V5_Q_REG_CTRL_HALT h)\<rparr>))
        = queue_drain iom proc h iq ?tail hk dk"
    using iters by (rule queue_drain_iters)
  also have "\<dots> = Some (hk, ?err)"
    using ne it by (rule queue_drain_stop)
  finally have run: "pspDevCcpQueueRunMaybe iom proc h d iq = Some (queue_halt h iq ?tail hk ?err)"
    using en by (simp add: pspDevCcpQueueRunMaybe_def Let_def)
  have regs: "u32RegSts (aQueues (queue_halt h iq ?tail hk ?err) iq) = CCP_V5_Q_REG_STATUS_ERROR h
      \<and> u32RegIsts (aQueues (queue_halt h iq ?tail hk ?err) iq) AND CCP_V5_Q_REG_ISTS_ERROR h
           = CCP_V5_Q_REG_ISTS_ERROR h
      \<and> u32RegReqHead (aQueues (queue_halt h iq ?tail hk ?err) iq) = hk
      \<and> hIoMgr (queue_halt h iq ?tail hk ?err) = hIoMgr dP
      \<and> Lsb (queue_halt h iq ?tail hk ?err) = Lsb dP
      \<and> pOsslShaCtx (queue_halt h iq ?tail hk ?err) = pOsslShaCtx dP"
    using ne by (simp add: queue_halt_def Let_def word_or3_and1)
  from run regs show ?thesis by simp
qed


theorem queue_error_stops_witness:
  "map_option (\<lambda>d. (u32RegSts (aQueues d 0), u32RegIsts (aQueues d 0), u32RegReqHead (aQueues d 0)))
     (pspDevCcpQueueRunMaybe ram_iom proc_eval ccp_v5_hdr dev_fail 0) = Some (1, 7, 0x120)"
proof -
  let ?d0 = "queue_upd dev_fail 0
      (\<lambda>q. q\<lparr>u32RegCtrl := u32RegCtrl q AND NOT (CCP_V5_Q_REG_CTRL_HALT ccp_v5_hdr)\<rparr>)"
  let ?it = "queue_iter ram_iom proc_eval ccp_v5_hdr 0 0x100 ?d0"
  have en: "fEnabled (aQueues dev_fail 0)"
    by (simp add: dev_fail_def q_reset_def)
  have tl: "u32RegReqTail (aQueues dev_fail 0) = 0x160"
    and hd: "u32RegReqHead (aQueues dev_fail 0) = 0x100"
    by (simp_all add: dev_fail_def q_reset_def)
  have f1: "fst ?it = True"
    by code_simp
  have f2: "fst (snd ?it) = 0x120"
    by code_simp
  obtain dk where it: "?it = (True, 0x120, dk)"
    using f1 f2 by (cases ?it) simp
  then have dk: "dk = snd (snd ?it)"
    by simp
  let ?Req = "fst (snd (ram_read (hIoMgr dk) 0x120 32))"
  let ?io = "snd (snd (ram_read (hIoMgr dk) 0x120 32))"
  let ?res = "proc_eval (dk\<lparr>hIoMgr := ?io\<rparr>) (req_of_bytes ?Req)"
  have iters: "queue_iters ram_iom proc_eval ccp_v5_hdr 0 (Suc 0) (u32RegReqTail (aQueues dev_fail 0))
      (u32RegReqHead (aQueues dev_fail 0)) ?d0 = Some (0x120, dk)"
    unfolding tl hd using it by simp
  have ne: "u32RegReqTail (aQueues dev_fail 0) \<noteq> 0x120"
    unfolding tl by simp
  have rd: "PSPEmuIoMgrPspAddrRead ram_iom (hIoMgr dk) 0x120 32 = (0, ?Req, ?io)"
    by (simp only: ram_iom_def ram_read_def iomgr.simps fst_conv snd_conv)
  have pr: "?res = (fst ?res, snd ?res)"
    by (simp only: prod.collapse)
  have rc: "fst ?res \<noteq> 0"
    unfolding dk by code_simp
  note st = queue_error_stops [OF en iters ne rd pr rc]
  from st obtain dF where run: "pspDevCcpQueueRunMaybe ram_iom proc_eval ccp_v5_hdr dev_fail 0 = Some dF"
    by blast
  from st run have sts: "u32RegSts (aQueues dF 0) = CCP_V5_Q_REG_STATUS_ERROR ccp_v5_hdr"
    and hdF: "u32RegReqHead (aQueues dF 0) = 0x120"
    by blast+
  have "map_option (\<lambda>d. u32RegIsts (aQueues d 0))
     (pspDevCcpQueueRunMaybe ram_iom proc_eval ccp_v5_hdr dev_fail 0) = Some 7"
    by code_simp
  then have ists: "u32RegIsts (aQueues dF 0) = 7"
    unfolding run by simp
  have "CCP_V5_Q_REG_STATUS_ERROR ccp_v5_hdr = 1"
    by (simp add: ccp_v5_hdr_def)
  with sts hdF ists show ?thesis
    unfolding run by simp
qed

subsection \<open>C2: when the executor runs\<close>

text \<open>
  C2. For a 32-bit access to a register of queue \<open>iq\<close>: a read is the executor run on
  that queue (whatever the register offset), giving back the register value read
  before; a write is the store into the register followed by the executor run exactly
  when the interrupt enable register is non-zero after the store; in particular a write
  to the control register of a queue whose interrupt enable register is 0 only sets the
  enabled flag and the control register (with \<open>RUN\<close> cleared) and does not run the
  executor, even if it has just started the queue.
\<close>

theorem executor_deferral:
  assumes w: "cb = 4"
    and off: "CCP_V5_Q_OFFSET h \<le> off"
    and sz: "CCP_V5_Q_SIZE h \<noteq> 0"
    and uq: "(off - CCP_V5_Q_OFFSET h) div CCP_V5_Q_SIZE h < 2"
  shows "(\<exists>v. pspDevCcpMmioRead iom proc h d off cb buf =
            map_option (\<lambda>d'. (le32_bytes v, d'))
              (pspDevCcpQueueRunMaybe iom proc h d
                 (unat ((off - CCP_V5_Q_OFFSET h) div CCP_V5_Q_SIZE h))))
       \<and> pspDevCcpMmioWrite iom proc h d off cb val =
           (let iq = unat ((off - CCP_V5_Q_OFFSET h) div CCP_V5_Q_SIZE h);
                d1 = queue_reg_store h d iq ((off - CCP_V5_Q_OFFSET h) mod CCP_V5_Q_SIZE h) (le32 val 0)
            in if u32RegIen (aQueues d1 iq) \<noteq> 0
               then pspDevCcpQueueRunMaybe iom proc h d1 iq
               else Some d1)
       \<and> ((off - CCP_V5_Q_OFFSET h) mod CCP_V5_Q_SIZE h = CCP_V5_Q_REG_CTRL h
            \<and> u32RegIen (aQueues d (unat ((off - CCP_V5_Q_OFFSET h) div CCP_V5_Q_SIZE h))) = 0
          \<longrightarrow> pspDevCcpMmioWrite iom proc h d off cb val =
                Some (queue_upd d (unat ((off - CCP_V5_Q_OFFSET h) div CCP_V5_Q_SIZE h))
                  (\<lambda>q. q\<lparr>fEnabled := (le32 val 0 AND CCP_V5_Q_REG_CTRL_RUN h \<noteq> 0),
                         u32RegCtrl := le32 val 0 AND NOT (CCP_V5_Q_REG_CTRL_RUN h)\<rparr>)))"
proof (intro conjI impI)
  let ?iq = "unat ((off - CCP_V5_Q_OFFSET h) div CCP_V5_Q_SIZE h)"
  let ?r = "(off - CCP_V5_Q_OFFSET h) mod CCP_V5_Q_SIZE h"
  show "\<exists>v. pspDevCcpMmioRead iom proc h d off cb buf =
            map_option (\<lambda>d'. (le32_bytes v, d')) (pspDevCcpQueueRunMaybe iom proc h d ?iq)"
    using w off uq
    by (auto simp: pspDevCcpMmioRead_def pspDevCcpMmioQueueRegRead_def Let_def
        option.map_comp comp_def)
  show wr: "pspDevCcpMmioWrite iom proc h d off cb val =
           (let iq = ?iq; d1 = queue_reg_store h d iq ?r (le32 val 0)
            in if u32RegIen (aQueues d1 iq) \<noteq> 0
               then pspDevCcpQueueRunMaybe iom proc h d1 iq
               else Some d1)"
    using w off uq
    by (simp add: pspDevCcpMmioWrite_def pspDevCcpMmioQueueRegWrite_def Let_def)
  assume c: "?r = CCP_V5_Q_REG_CTRL h \<and> u32RegIen (aQueues d ?iq) = 0"
  then have st: "queue_reg_store h d ?iq ?r (le32 val 0) =
      queue_upd d ?iq
        (\<lambda>q. q\<lparr>fEnabled := (le32 val 0 AND CCP_V5_Q_REG_CTRL_RUN h \<noteq> 0),
               u32RegCtrl := le32 val 0 AND NOT (CCP_V5_Q_REG_CTRL_RUN h)\<rparr>)"
    by (auto simp: queue_reg_store_def queue_upd_def fun_eq_iff intro!: arg_cong [where f = "\<lambda>f. d\<lparr>aQueues := f\<rparr>"])
  have "u32RegIen (aQueues (queue_reg_store h d ?iq ?r (le32 val 0)) ?iq) = 0"
    using c unfolding st by simp
  with wr st show "pspDevCcpMmioWrite iom proc h d off cb val =
      Some (queue_upd d ?iq
        (\<lambda>q. q\<lparr>fEnabled := (le32 val 0 AND CCP_V5_Q_REG_CTRL_RUN h \<noteq> 0),
               u32RegCtrl := le32 val 0 AND NOT (CCP_V5_Q_REG_CTRL_RUN h)\<rparr>))"
    by (simp add: Let_def)
qed

theorem executor_deferral_witness:
  "(4 :: size_t) = 4 \<and> CCP_V5_Q_OFFSET ccp_v5_hdr \<le> 0x1000 \<and> CCP_V5_Q_SIZE ccp_v5_hdr \<noteq> 0
   \<and> (0x1000 - CCP_V5_Q_OFFSET ccp_v5_hdr) div CCP_V5_Q_SIZE ccp_v5_hdr < 2
   \<and> map_option (\<lambda>d. (fEnabled (aQueues d 0), u32RegReqHead (aQueues d 0)))
         (pspDevCcpMmioWrite ram_iom proc_eval ccp_v5_hdr
            (queue_upd dev_fail 0 (\<lambda>q. q\<lparr>fEnabled := False\<rparr>)) 0x1000 4 [1, 0, 0, 0])
       = Some (True, 0x100)
   \<and> map_option (\<lambda>r. u32RegReqHead (aQueues (snd r) 0))
         (pspDevCcpMmioRead ram_iom proc_eval ccp_v5_hdr dev_fail 0x1000 4 [0, 0, 0, 0])
       = Some 0x120"
proof -
  let ?d = "queue_upd dev_fail 0 (\<lambda>q. q\<lparr>fEnabled := False\<rparr>)"
  have h1: "(4 :: size_t) = 4" by simp
  have h2: "CCP_V5_Q_OFFSET ccp_v5_hdr \<le> 0x1000" by (simp add: ccp_v5_hdr_def)
  have h3: "CCP_V5_Q_SIZE ccp_v5_hdr \<noteq> 0" by (simp add: ccp_v5_hdr_def)
  have h4: "(0x1000 - CCP_V5_Q_OFFSET ccp_v5_hdr) div CCP_V5_Q_SIZE ccp_v5_hdr < 2"
    by (simp add: ccp_v5_hdr_def)
  have iq: "unat ((0x1000 - CCP_V5_Q_OFFSET ccp_v5_hdr) div CCP_V5_Q_SIZE ccp_v5_hdr) = 0"
    by (simp add: ccp_v5_hdr_def)
  have c: "(0x1000 - CCP_V5_Q_OFFSET ccp_v5_hdr) mod CCP_V5_Q_SIZE ccp_v5_hdr = CCP_V5_Q_REG_CTRL ccp_v5_hdr
      \<and> u32RegIen (aQueues ?d (unat ((0x1000 - CCP_V5_Q_OFFSET ccp_v5_hdr) div CCP_V5_Q_SIZE ccp_v5_hdr))) = 0"
    by (simp add: ccp_v5_hdr_def dev_fail_def dev_zero_def q_reset_def queue_upd_def)
  from executor_deferral [OF h1 h2 h3 h4, of ram_iom proc_eval ?d "[]" "[1, 0, 0, 0]"] c
  have "pspDevCcpMmioWrite ram_iom proc_eval ccp_v5_hdr ?d 0x1000 4 [1, 0, 0, 0] =
      Some (queue_upd ?d 0
        (\<lambda>q. q\<lparr>fEnabled := (le32 [1, 0, 0, 0] 0 AND CCP_V5_Q_REG_CTRL_RUN ccp_v5_hdr \<noteq> 0),
               u32RegCtrl := le32 [1, 0, 0, 0] 0 AND NOT (CCP_V5_Q_REG_CTRL_RUN ccp_v5_hdr)\<rparr>))"
    unfolding iq by blast
  then have wr: "map_option (\<lambda>d. (fEnabled (aQueues d 0), u32RegReqHead (aQueues d 0)))
         (pspDevCcpMmioWrite ram_iom proc_eval ccp_v5_hdr ?d 0x1000 4 [1, 0, 0, 0]) = Some (True, 0x100)"
    by (simp add: ccp_v5_hdr_def dev_fail_def dev_zero_def q_reset_def queue_upd_def le32_def)
  have rd: "map_option (\<lambda>r. u32RegReqHead (aQueues (snd r) 0))
         (pspDevCcpMmioRead ram_iom proc_eval ccp_v5_hdr dev_fail 0x1000 4 [0, 0, 0, 0]) = Some 0x120"
    by code_simp
  from h1 h2 h3 h4 wr rd show ?thesis by blast
qed

subsection \<open>C9: accesses that are not 32 bits wide\<close>

text \<open>
  C9 says that a read of another width returns zero. \<open>pspDevCcpMmioRead\<close> prints and
  returns without storing anything: a one-byte read into a buffer that holds 0xaa
  leaves 0xaa there.
\<close>

theorem mmio_width_read_counterexample:
  "map_option fst (pspDevCcpMmioRead ram_iom proc_eval ccp_v5_hdr dev_run0 0x1000 1 [0xaa]) = Some [0xaa]
   \<and> map_option fst (pspDevCcpMmioRead ram_iom proc_eval ccp_v5_hdr dev_run0 0x1000 1 [0xaa]) \<noteq> Some [0]"
  by code_simp

text \<open>
  C9, as the code has it. An access to the queue window of a width other than 32 bits
  is logged with \<open>printf\<close>; a read stores nothing in the caller's buffer, a write is
  ignored, and nothing in the device changes.
\<close>

theorem mmio_width_guard:
  assumes "cb \<noteq> 4"
  shows "pspDevCcpMmioRead iom proc h d off cb buf =
           Some (buf, d\<lparr>evts := evts d @ [EvPrintf (UnsupportedAccessWidth off cb)]\<rparr>)
       \<and> pspDevCcpMmioWrite iom proc h d off cb val =
           Some (d\<lparr>evts := evts d @ [EvPrintf (UnsupportedAccessWidth off cb)]\<rparr>)"
  using assms by (simp add: pspDevCcpMmioRead_def pspDevCcpMmioWrite_def)

theorem mmio_width_guard_witness:
  "(2 :: size_t) \<noteq> 4
   \<and> pspDevCcpMmioRead ram_iom proc_eval ccp_v5_hdr dev_run0 0x1010 2 [0xaa, 0xbb] =
       Some ([0xaa, 0xbb], dev_run0\<lparr>evts := [EvPrintf (UnsupportedAccessWidth 0x1010 2)]\<rparr>)
   \<and> pspDevCcpMmioWrite ram_iom proc_eval ccp_v5_hdr dev_run0 0x1010 2 [0xff, 0xff] =
       Some (dev_run0\<lparr>evts := [EvPrintf (UnsupportedAccessWidth 0x1010 2)]\<rparr>)"
proof -
  have h: "(2 :: size_t) \<noteq> 4" by simp
  have e: "evts dev_run0 = []" by (simp add: dev_run0_def dev_zero_def)
  from mmio_width_guard [OF h, of ram_iom proc_eval ccp_v5_hdr dev_run0 "0x1010" "[0xaa, 0xbb]" "[0xff, 0xff]"]
  show ?thesis using h by (simp add: e)
qed

subsection \<open>C10: writing the interrupt status register\<close>

text \<open>
  C10 says that after a write of \<open>v\<close> to the interrupt status register exactly the bits of
  \<open>v\<close> are cleared and no other register has changed. When the interrupt enable
  register is non-zero the write handler goes on to run the executor: on a started queue
  with an empty ring, the completion interrupt enabled and \<open>Q_STOP | Q_EMPTY\<close> pending,
  writing \<open>Q_STOP | Q_EMPTY\<close> leaves both bits set, because the run sets them again.
\<close>

theorem ists_write_counterexample:
  "map_option (\<lambda>d. u32RegIsts (aQueues d 0))
     (pspDevCcpMmioWrite ram_iom proc_eval ccp_v5_hdr dev_ack 0x1010 4 [0xc, 0, 0, 0]) = Some 0xc
   \<and> map_option (\<lambda>d. u32RegIsts (aQueues d 0))
     (pspDevCcpMmioWrite ram_iom proc_eval ccp_v5_hdr dev_ack 0x1010 4 [0xc, 0, 0, 0])
       \<noteq> Some (u32RegIsts (aQueues dev_ack 0) AND NOT 0xc)"
  by code_simp

text \<open>
  C10, as the code has it. A write of \<open>v\<close> to the interrupt status register of queue
  \<open>iq\<close> clears exactly the bits of \<open>v\<close> in that register, changes no other register, and
  calls \<open>pfnIrqSet(0, 0x15, false)\<close> exactly when interrupt enable and the new interrupt
  status have no common bit; this is the device \<open>d1\<close>. If interrupt enable is non-zero
  the executor then runs on \<open>d1\<close> (C2); if it is zero, or the queue is not started, the
  result is \<open>d1\<close>. The register offsets are those of one \<open>switch\<close>, so they differ.
\<close>

theorem ists_write_clears:
  assumes dist: "CCP_V5_Q_REG_ISTS h \<notin> {CCP_V5_Q_REG_CTRL h, CCP_V5_Q_REG_HEAD h,
      CCP_V5_Q_REG_TAIL h, CCP_V5_Q_REG_STATUS h, CCP_V5_Q_REG_IEN h}"
  shows "(let q = aQueues d iq;
              d1 = (queue_upd d iq (\<lambda>q. q\<lparr>u32RegIsts := u32RegIsts q AND NOT v\<rparr>))
                     \<lparr>evts := evts d @
                        (if u32RegIen q AND (u32RegIsts q AND NOT v) = 0
                         then [EvIrqSet 0 0x15 False] else [])\<rparr>
          in pspDevCcpMmioQueueRegWrite iom proc h d iq (CCP_V5_Q_REG_ISTS h) v =
               (if u32RegIen q \<noteq> 0 then pspDevCcpQueueRunMaybe iom proc h d1 iq else Some d1)
           \<and> (u32RegIen q = 0 \<or> \<not> fEnabled q
                \<longrightarrow> pspDevCcpMmioQueueRegWrite iom proc h d iq (CCP_V5_Q_REG_ISTS h) v = Some d1))"
proof -
  let ?q = "aQueues d iq"
  let ?d1 = "(queue_upd d iq (\<lambda>q. q\<lparr>u32RegIsts := u32RegIsts q AND NOT v\<rparr>))
      \<lparr>evts := evts d @ (if u32RegIen ?q AND (u32RegIsts ?q AND NOT v) = 0
                         then [EvIrqSet 0 0x15 False] else [])\<rparr>"
  have st: "queue_reg_store h d iq (CCP_V5_Q_REG_ISTS h) v = ?d1"
    using dist by (auto simp: queue_reg_store_def Let_def)
  have ien: "u32RegIen (aQueues ?d1 iq) = u32RegIen ?q" and en: "fEnabled (aQueues ?d1 iq) = fEnabled ?q"
    by simp_all
  have w: "pspDevCcpMmioQueueRegWrite iom proc h d iq (CCP_V5_Q_REG_ISTS h) v =
      (if u32RegIen ?q \<noteq> 0 then pspDevCcpQueueRunMaybe iom proc h ?d1 iq else Some ?d1)"
    unfolding pspDevCcpMmioQueueRegWrite_def st Let_def ien ..
  moreover have "\<not> fEnabled ?q \<Longrightarrow> pspDevCcpQueueRunMaybe iom proc h ?d1 iq = Some ?d1"
    unfolding pspDevCcpQueueRunMaybe_def en by simp
  ultimately have "u32RegIen ?q = 0 \<or> \<not> fEnabled ?q
      \<longrightarrow> pspDevCcpMmioQueueRegWrite iom proc h d iq (CCP_V5_Q_REG_ISTS h) v = Some ?d1"
    by auto
  with w show ?thesis by (simp add: Let_def)
qed

theorem ists_write_clears_witness:
  "CCP_V5_Q_REG_ISTS ccp_v5_hdr \<notin> {CCP_V5_Q_REG_CTRL ccp_v5_hdr, CCP_V5_Q_REG_HEAD ccp_v5_hdr,
      CCP_V5_Q_REG_TAIL ccp_v5_hdr, CCP_V5_Q_REG_STATUS ccp_v5_hdr, CCP_V5_Q_REG_IEN ccp_v5_hdr}
   \<and> (u32RegIen (aQueues dev_pending 0) = 0 \<or> \<not> fEnabled (aQueues dev_pending 0))
   \<and> pspDevCcpMmioQueueRegWrite ram_iom proc_eval ccp_v5_hdr dev_pending 0 (CCP_V5_Q_REG_ISTS ccp_v5_hdr) 5
        = Some ((queue_upd dev_pending 0 (\<lambda>q. q\<lparr>u32RegIsts := 0xa\<rparr>))\<lparr>evts := [EvIrqSet 0 0x15 False]\<rparr>)"
proof -
  have h: "CCP_V5_Q_REG_ISTS ccp_v5_hdr \<notin> {CCP_V5_Q_REG_CTRL ccp_v5_hdr, CCP_V5_Q_REG_HEAD ccp_v5_hdr,
      CCP_V5_Q_REG_TAIL ccp_v5_hdr, CCP_V5_Q_REG_STATUS ccp_v5_hdr, CCP_V5_Q_REG_IEN ccp_v5_hdr}"
    by (simp add: ccp_v5_hdr_def)
  have q: "u32RegIen (aQueues dev_pending 0) = 0" "u32RegIsts (aQueues dev_pending 0) = 0xf"
    "evts dev_pending = []"
    by (simp_all add: dev_pending_def dev_zero_def q_reset_def)
  from ists_write_clears [OF h, of dev_pending 0 5 ram_iom proc_eval] q
  have "pspDevCcpMmioQueueRegWrite ram_iom proc_eval ccp_v5_hdr dev_pending 0 (CCP_V5_Q_REG_ISTS ccp_v5_hdr) 5
        = Some ((queue_upd dev_pending 0 (\<lambda>q. q\<lparr>u32RegIsts := u32RegIsts q AND NOT 5\<rparr>))
                  \<lparr>evts := [EvIrqSet 0 0x15 False]\<rparr>)"
    by (simp add: Let_def)
  moreover have "queue_upd dev_pending 0 (\<lambda>q. q\<lparr>u32RegIsts := u32RegIsts q AND NOT 5\<rparr>)
      = queue_upd dev_pending 0 (\<lambda>q. q\<lparr>u32RegIsts := 0xa\<rparr>)"
    using q(2) by (simp add: queue_upd_def)
  ultimately show ?thesis using h q(1) by simp
qed

subsection \<open>C8: the interrupt line\<close>

lemma only_logs_refl [simp]: "only_logs s s"
  by (auto simp: only_logs_def intro: exI [of _ "[]"])

lemma only_logs_trans: "only_logs s s' \<Longrightarrow> only_logs s' s'' \<Longrightarrow> only_logs s s''"
  by (auto simp: only_logs_def simp flip: map_append)

lemma only_logs_printf: "only_logs s (s\<lparr>evts := evts s @ [EvPrintf m]\<rparr>)"
  by (auto simp: only_logs_def intro: exI [of _ "[m]"])

lemma only_logs_fields [simp]:
  "only_logs s (s\<lparr>hIoMgr := io\<rparr>)" "only_logs s (s\<lparr>Lsb := l\<rparr>)"
  "only_logs s (s\<lparr>pOsslShaCtx := c\<rparr>)" "only_logs s (s\<lparr>cbWrittenLast := n\<rparr>)"
  "only_logs s (s\<lparr>hIoMgr := io, cbWrittenLast := n\<rparr>)"
  by (auto simp: only_logs_def intro: exI [of _ "[]"])

lemma only_logs_upd:
  "only_logs s s' \<Longrightarrow> only_logs s (s'\<lparr>hIoMgr := io\<rparr>)"
  "only_logs s s' \<Longrightarrow> only_logs s (s'\<lparr>pOsslShaCtx := c\<rparr>)"
  by (auto simp: only_logs_def)

lemma only_logs_from_upd:
  "only_logs (s\<lparr>hIoMgr := io\<rparr>) s' \<Longrightarrow> only_logs s s'"
  "only_logs (s\<lparr>pOsslShaCtx := c\<rparr>) s' \<Longrightarrow> only_logs s s'"
  "only_logs (s\<lparr>cbWrittenLast := n\<rparr>) s' \<Longrightarrow> only_logs s s'"
  by (auto simp: only_logs_def)

lemma irq_level_append_printf [simp]: "irq_level l (es @ [EvPrintf m]) = irq_level l es"
  by (induction l es rule: irq_level.induct) auto

lemma irq_level_append_irq [simp]: "irq_level l (es @ [EvIrqSet p dv b]) = b"
  by (induction l es rule: irq_level.induct) auto

lemma irq_level_append_printfs [simp]: "irq_level l (es @ map EvPrintf ms) = irq_level l es"
proof (induction ms rule: rev_induct)
  case Nil
  then show ?case by simp
next
  case (snoc m ms)
  have "irq_level l (es @ map EvPrintf (ms @ [m])) = irq_level l ((es @ map EvPrintf ms) @ [EvPrintf m])"
    by simp
  also have "\<dots> = irq_level l (es @ map EvPrintf ms)"
    by (rule irq_level_append_printf)
  finally show ?case using snoc by simp
qed

lemma only_logs_irq: "only_logs s s' \<Longrightarrow> irq_line (evts s') = irq_line (evts s)"
  by (auto simp: only_logs_def irq_line_def)

lemma xfer_read_logs: "xfer_read iom f s a n = (rc, bs, s') \<Longrightarrow> only_logs s s'"
  by (auto simp: xfer_read_def pspDevCcpXferMemSysRead_def pspDevCcpXferMemLsbRead_def
      pspDevCcpXferMemLocalRead_def only_logs_printf split: xfer_fn.splits if_splits prod.splits)

lemma xfer_write_logs: "xfer_write iom f s a bs = (rc, s') \<Longrightarrow> only_logs s s'"
  by (auto simp: xfer_write_def pspDevCcpXferMemSysWrite_def pspDevCcpXferMemLsbWrite_def
      pspDevCcpXferMemLocalWrite_def only_logs_printf Let_def split: xfer_fn.splits if_splits prod.splits)

lemma xfer_write_rev_logs: "xfer_write_rev iom f a s bs = (rc, a', s') \<Longrightarrow> only_logs s s'"
proof (induction bs arbitrary: a s)
  case Nil
  then show ?case by simp
next
  case (Cons b bs)
  obtain rc1 s1 where w: "xfer_write iom f s (a - 1) [b] = (rc1, s1)"
    by (cases "xfer_write iom f s (a - 1) [b]") auto
  then have l1: "only_logs s s1" by (rule xfer_write_logs)
  show ?case
  proof (cases "rc1 = 0")
    case True
    with Cons.prems w have "xfer_write_rev iom f (a - 1) s1 bs = (rc, a', s')" by simp
    then have "only_logs s1 s'" by (rule Cons.IH)
    with l1 show ?thesis by (rule only_logs_trans)
  next
    case False
    with Cons.prems w l1 show ?thesis by simp
  qed
qed

lemma XferCtxInit_logs: "pspDevCcpXferCtxInit h s r fSha cb rv = (c, s') \<Longrightarrow> only_logs s s'"
  by (auto simp: pspDevCcpXferCtxInit_def Let_def split: option.splits if_splits)

lemma XferCtxRead_logs: "pspDevCcpXferCtxRead iom c s n p = (rc, bs, c', s') \<Longrightarrow> only_logs s s'"
  by (auto simp: pspDevCcpXferCtxRead_def Let_def split: if_splits prod.splits dest: xfer_read_logs)

lemma XferCtxWrite_logs: "pspDevCcpXferCtxWrite iom c s bs n p = (rc, c', s') \<Longrightarrow> only_logs s s'"
  by (auto simp: pspDevCcpXferCtxWrite_def Let_def split: if_splits prod.splits
      dest: xfer_write_logs xfer_write_rev_logs)

lemma passthru_loop_logs: "passthru_loop iom c n s = (rc, c', s') \<Longrightarrow> only_logs s s'"
proof (induction iom c n s rule: passthru_loop.induct)
  case (1 iom c n s)
  show ?case
  proof (cases "n = 0")
    case True
    with 1(2) show ?thesis by (simp add: passthru_loop.simps)
  next
    case False
    obtain rc1 bs c1 s1 where r: "pspDevCcpXferCtxRead iom c s (min n 4096) False = (rc1, bs, c1, s1)"
      by (cases "pspDevCcpXferCtxRead iom c s (min n 4096) False") auto
    then have l1: "only_logs s s1" by (rule XferCtxRead_logs)
    show ?thesis
    proof (cases "rc1 = 0")
      case rc1: True
      obtain rc2 c2 s2 where w: "pspDevCcpXferCtxWrite iom c1 s1 bs (min n 4096) False = (rc2, c2, s2)"
        by (cases "pspDevCcpXferCtxWrite iom c1 s1 bs (min n 4096) False") auto
      then have l2: "only_logs s1 s2" by (rule XferCtxWrite_logs)
      show ?thesis
      proof (cases "rc2 = 0")
        case True
        with 1(2) False r rc1 w have "passthru_loop iom c2 (n - min n 4096) s2 = (rc, c', s')"
          by (simp add: passthru_loop.simps [of iom c n s])
        with 1(1) [OF False r [symmetric] refl refl rc1 w [symmetric] refl True]
        have "only_logs s2 s'" by simp
        with l1 l2 show ?thesis by (blast intro: only_logs_trans)
      next
        case False
        with 1(2) \<open>n \<noteq> 0\<close> r rc1 w have "s' = s2" by (simp add: passthru_loop.simps [of iom c n s])
        with l1 l2 show ?thesis by (blast intro: only_logs_trans)
      qed
    next
      case False
      with 1(2) \<open>n \<noteq> 0\<close> r have "s' = s1" by (simp add: passthru_loop.simps [of iom c n s])
      with l1 show ?thesis by simp
    qed
  qed
qed

lemma sha_update_logs: "sha_update s bs = (rc, s') \<Longrightarrow> only_logs s s'"
  by (auto simp: sha_update_def split: option.splits)

lemma sha_loop_logs: "sha_loop iom c n s = (rc, c', s') \<Longrightarrow> only_logs s s'"
proof (induction iom c n s rule: sha_loop.induct)
  case (1 iom c n s)
  show ?case
  proof (cases "n = 0")
    case True
    with 1(2) show ?thesis by (simp add: sha_loop.simps)
  next
    case False
    obtain rc1 bs c1 s1 where r: "pspDevCcpXferCtxRead iom c s (min n 256) False = (rc1, bs, c1, s1)"
      by (cases "pspDevCcpXferCtxRead iom c s (min n 256) False") auto
    then have l1: "only_logs s s1" by (rule XferCtxRead_logs)
    show ?thesis
    proof (cases "rc1 = 0")
      case rc1: True
      obtain rc2 s2 where w: "sha_update s1 bs = (rc2, s2)"
        by (cases "sha_update s1 bs") auto
      then have l2: "only_logs s1 s2" by (rule sha_update_logs)
      show ?thesis
      proof (cases "rc2 = 0")
        case True
        with 1(2) False r rc1 w have "sha_loop iom c1 (n - min n 256) s2 = (rc, c', s')"
          by (simp add: sha_loop.simps [of iom c n s])
        with 1(1) [OF False r [symmetric] refl refl rc1 w [symmetric] True]
        have "only_logs s2 s'" by simp
        with l1 l2 show ?thesis by (blast intro: only_logs_trans)
      next
        case False
        with 1(2) \<open>n \<noteq> 0\<close> r rc1 w have "s' = s2" by (simp add: sha_loop.simps [of iom c n s])
        with l1 l2 show ?thesis by (blast intro: only_logs_trans)
      qed
    next
      case False
      with 1(2) \<open>n \<noteq> 0\<close> r have "s' = s1" by (simp add: sha_loop.simps [of iom c n s])
      with l1 show ?thesis by simp
    qed
  qed
qed

lemma KeyCopy_logs: "pspDevCcpKeyCopyFromReq iom h s r n k = (rc, k', s') \<Longrightarrow> only_logs s s'"
  by (auto simp: pspDevCcpKeyCopyFromReq_def pspDevCcpXferMemLocalRead_def Let_def
      split: if_splits prod.splits)

lemma Passthru_logs: "pspDevCcpReqPassthruProcess iom h s r f = (rc, s') \<Longrightarrow> only_logs s s'"
  by (auto simp: pspDevCcpReqPassthruProcess_def Let_def split: if_splits prod.splits option.splits
      dest!: XferCtxInit_logs passthru_loop_logs intro: only_logs_trans)

lemma Sha_logs: "pspDevCcpReqShaProcess iom h ext s r f i e = (rc, s') \<Longrightarrow> only_logs s s'"
  unfolding pspDevCcpReqShaProcess_def Let_def
  by (auto split: if_splits prod.splits option.splits
      dest!: XferCtxInit_logs sha_loop_logs XferCtxWrite_logs only_logs_from_upd
      intro: only_logs_trans only_logs_upd)

lemma Rsa_logs: "pspDevCcpReqRsaProcess iom h ext s r f i e = (rc, s') \<Longrightarrow> only_logs s s'"
  unfolding pspDevCcpReqRsaProcess_def Let_def
  by (auto split: if_splits prod.splits option.splits
      dest!: XferCtxInit_logs KeyCopy_logs XferCtxRead_logs XferCtxWrite_logs
      intro: only_logs_trans)

lemma ReqProcess_logs:
  assumes "ext_frame ext"
  shows "only_logs s (snd (pspDevCcpReqProcess iom h ext s r))"
proof -
  obtain rc s' where p: "pspDevCcpReqProcess iom h ext s r = (rc, s')"
    by (cases "pspDevCcpReqProcess iom h ext s r") auto
  have e: "only_logs s s'" if "pspDevCcpReqAesProcess ext s r f i e = (rc, s')
      \<or> pspDevCcpReqZlibProcess ext s r f i e = (rc, s')
      \<or> pspDevCcpReqEccProcess ext s r f i e = (rc, s')" for s r f i e rc s'
  proof -
    from assms have "only_logs s (snd (pspDevCcpReqAesProcess ext s r f i e))"
      "only_logs s (snd (pspDevCcpReqZlibProcess ext s r f i e))"
      "only_logs s (snd (pspDevCcpReqEccProcess ext s r f i e))"
      by (simp_all add: ext_frame_def)
    with that show ?thesis by auto
  qed
  from p have "only_logs s s'"
    unfolding pspDevCcpReqProcess_def Let_def
    by (auto split: if_splits dest: Passthru_logs Sha_logs Rsa_logs intro: e)
  with p show ?thesis by simp
qed

lemma queue_iter_irq:
  assumes fr: "\<And>s r. only_logs s (snd (proc s r))"
    and it: "queue_iter iom proc h iq hx d = (c, hx', d')"
  shows "irq_line (evts d') = irq_line (evts d)"
proof -
  obtain rc Req io' where rd: "PSPEmuIoMgrPspAddrRead iom (hIoMgr d) hx 32 = (rc, Req, io')"
    by (cases "PSPEmuIoMgrPspAddrRead iom (hIoMgr d) hx 32") auto
  show ?thesis
  proof (cases "rc = 0")
    case True
    obtain rc' dP where pr: "proc (d\<lparr>hIoMgr := io'\<rparr>) (req_of_bytes Req) = (rc', dP)"
      by (cases "proc (d\<lparr>hIoMgr := io'\<rparr>) (req_of_bytes Req)") auto
    from fr [of "d\<lparr>hIoMgr := io'\<rparr>" "req_of_bytes Req"] pr
    have "only_logs (d\<lparr>hIoMgr := io'\<rparr>) dP" by simp
    then have "irq_line (evts dP) = irq_line (evts d)"
      by (auto dest: only_logs_irq)
    moreover from it rd True pr have "evts d' = evts dP"
      by (auto simp: queue_iter_def split: if_splits)
    ultimately show ?thesis by simp
  next
    case False
    with it rd have "evts d' = evts d @ [EvPrintf (ReqReadFailed hx rc)]"
      by (auto simp: queue_iter_def)
    then show ?thesis by (simp add: irq_line_def)
  qed
qed

lemma queue_drain_irq:
  assumes fr: "\<And>s r. only_logs s (snd (proc s r))"
    and dr: "queue_drain iom proc h iq tail hx d = Some r"
  shows "irq_line (evts (snd r)) = irq_line (evts d)"
proof -
  have "(\<forall>s r. only_logs s (snd (proc s r))) \<longrightarrow> irq_line (evts (snd r)) = irq_line (evts d)"
  proof (rule queue_drain.raw_induct [where P = "\<lambda>iom proc h iq tail hx d r.
       (\<forall>s r. only_logs s (snd (proc s r))) \<longrightarrow> irq_line (evts (snd r)) = irq_line (evts d)",
       OF _ dr], goal_cases)
    case (1 qd iom proc h iq tail hx d r)
    show ?case
    proof (intro impI)
      assume fr: "\<forall>s r. only_logs s (snd (proc s r))"
      show "irq_line (evts (snd r)) = irq_line (evts d)"
      proof (cases "tail = hx")
        case True
        with 1(2) show ?thesis by auto
      next
        case False
        obtain c hx' d' where it: "queue_iter iom proc h iq hx d = (c, hx', d')"
          by (cases "queue_iter iom proc h iq hx d") auto
        have e: "irq_line (evts d') = irq_line (evts d)"
          by (rule queue_iter_irq [OF _ it]) (simp add: fr)
        show ?thesis
        proof (cases c)
          case True
          with False it 1(2) have "qd iom proc h iq tail hx' d' = Some r" by simp
          from 1(1) [OF this] fr e show ?thesis by simp
        next
          case c: False
          with False it 1(2) have "r = (hx', d')" by simp
          with e show ?thesis by simp
        qed
      qed
    qed
  qed
  with fr show ?thesis by blast
qed

lemma queue_halt_irq:
  "irq_line (evts (queue_halt h iq tail hx d)) =
     (if u32RegIen (aQueues (queue_halt h iq tail hx d) iq)
           AND u32RegIsts (aQueues (queue_halt h iq tail hx d) iq) \<noteq> 0
      then True else irq_line (evts d))"
  by (simp add: queue_halt_def Let_def irq_line_def)

lemma queue_run_irq:
  assumes fr: "\<And>s r. only_logs s (snd (proc s r))"
    and run: "pspDevCcpQueueRunMaybe iom proc h d iq = Some d'"
  shows "irq_line (evts d') =
     (if fEnabled (aQueues d iq) \<and> u32RegIen (aQueues d' iq) AND u32RegIsts (aQueues d' iq) \<noteq> 0
      then True else irq_line (evts d))"
proof (cases "fEnabled (aQueues d iq)")
  case False
  with run show ?thesis by (simp add: pspDevCcpQueueRunMaybe_def)
next
  case True
  let ?d0 = "queue_upd d iq (\<lambda>q. q\<lparr>u32RegCtrl := u32RegCtrl q AND NOT (CCP_V5_Q_REG_CTRL_HALT h)\<rparr>)"
  from run True obtain hx d1 where
    dr: "queue_drain iom proc h iq (u32RegReqTail (aQueues d iq)) (u32RegReqHead (aQueues d iq)) ?d0
          = Some (hx, d1)"
    and d': "d' = queue_halt h iq (u32RegReqTail (aQueues d iq)) hx d1"
    by (auto simp: pspDevCcpQueueRunMaybe_def Let_def split: option.splits)
  from queue_drain_irq [OF fr dr] have "irq_line (evts d1) = irq_line (evts d)"
    by simp
  with True show ?thesis
    unfolding d' by (simp add: queue_halt_irq)
qed

lemma queue_reg_store_irq:
  "irq_line (evts (queue_reg_store h d iq off v)) =
     (if off = CCP_V5_Q_REG_ISTS h
         \<and> off \<notin> {CCP_V5_Q_REG_CTRL h, CCP_V5_Q_REG_HEAD h, CCP_V5_Q_REG_TAIL h,
                   CCP_V5_Q_REG_STATUS h, CCP_V5_Q_REG_IEN h}
         \<and> u32RegIen (aQueues d iq) AND (u32RegIsts (aQueues d iq) AND NOT v) = 0
      then False else irq_line (evts d))"
  by (auto simp: queue_reg_store_def Let_def irq_line_def)

lemma proc_eval_logs: "only_logs s (snd (proc_eval s r))"
  unfolding proc_eval_def
  by (rule ReqProcess_logs) (simp add: ext_frame_def ext_eval_def)

text \<open>
  C8 says that in every reachable state the line is asserted exactly when some queue has
  a common bit in interrupt enable and interrupt status. The line is only driven at the
  end of an executor run and by a write to an interrupt status register, so it does not
  follow the registers. From the initialised device, with head and tail set to 0:
  starting queue 0, reading a register (the run leaves \<open>Q_STOP | Q_EMPTY\<close> pending),
  stopping the queue and then enabling all interrupts leaves the line deasserted with
  pending enabled bits; enabling all interrupts, starting the queue (the run asserts the
  line) and then disabling all interrupts leaves the line asserted with no pending
  enabled bit in either queue.
\<close>

theorem irq_invariant_counterexample:
  "map_option (\<lambda>d. (irq_line (evts d), u32RegIen (aQueues d 0) AND u32RegIsts (aQueues d 0) \<noteq> 0))
     (mmio_run ram_iom proc_eval ccp_v5_hdr (pspDevCcpInit ccp_v5_hdr (dev_zero (\<lambda>_. 0)))
        [MmioWr 0x1008 4 [0, 0, 0, 0], MmioWr 0x1004 4 [0, 0, 0, 0], MmioWr 0x1000 4 [1, 0, 0, 0],
         MmioRd 0x1000 4, MmioWr 0x1000 4 [0, 0, 0, 0], MmioWr 0x100c 4 [0xf, 0, 0, 0]])
     = Some (False, True)
   \<and> map_option (\<lambda>d. (irq_line (evts d),
                      u32RegIen (aQueues d 0) AND u32RegIsts (aQueues d 0) \<noteq> 0
                      \<or> u32RegIen (aQueues d 1) AND u32RegIsts (aQueues d 1) \<noteq> 0))
     (mmio_run ram_iom proc_eval ccp_v5_hdr (pspDevCcpInit ccp_v5_hdr (dev_zero (\<lambda>_. 0)))
        [MmioWr 0x1008 4 [0, 0, 0, 0], MmioWr 0x1004 4 [0, 0, 0, 0], MmioWr 0x100c 4 [0xf, 0, 0, 0],
         MmioWr 0x1000 4 [1, 0, 0, 0], MmioWr 0x100c 4 [0, 0, 0, 0]])
     = Some (True, False)"
  by code_simp

text \<open>
  C8, as the code has it. With a request processor that leaves the queue registers alone
  and calls no interrupt callback: an executor run asserts the line when the queue is
  started and interrupt enable and interrupt status have a common bit at its end, and
  leaves it as it was otherwise; a register store deasserts the line when it is a write
  to the interrupt status register after which interrupt enable and interrupt status
  have no common bit, and leaves it as it was otherwise; an MMIO read or write changes
  the line only through these two, and not at all when it is not a 32-bit access to a
  register of one of the two queues.
\<close>

theorem irq_line_steps:
  assumes fr: "\<And>s r. only_logs s (snd (proc s r))"
  shows "(\<forall>d'. pspDevCcpQueueRunMaybe iom proc h d iq = Some d' \<longrightarrow>
            irq_line (evts d') =
              (if fEnabled (aQueues d iq) \<and> u32RegIen (aQueues d' iq) AND u32RegIsts (aQueues d' iq) \<noteq> 0
               then True else irq_line (evts d)))
       \<and> irq_line (evts (queue_reg_store h d iq off v)) =
            (if off = CCP_V5_Q_REG_ISTS h
                \<and> off \<notin> {CCP_V5_Q_REG_CTRL h, CCP_V5_Q_REG_HEAD h, CCP_V5_Q_REG_TAIL h,
                          CCP_V5_Q_REG_STATUS h, CCP_V5_Q_REG_IEN h}
                \<and> u32RegIen (aQueues d iq) AND (u32RegIsts (aQueues d iq) AND NOT v) = 0
             then False else irq_line (evts d))
       \<and> (\<forall>buf' d'. pspDevCcpMmioRead iom proc h d offMmio cb buf = Some (buf', d') \<longrightarrow>
            irq_line (evts d') =
              (let jq = unat ((offMmio - CCP_V5_Q_OFFSET h) div CCP_V5_Q_SIZE h)
               in if cb = 4 \<and> CCP_V5_Q_OFFSET h \<le> offMmio
                     \<and> (offMmio - CCP_V5_Q_OFFSET h) div CCP_V5_Q_SIZE h < 2
                     \<and> fEnabled (aQueues d jq)
                     \<and> u32RegIen (aQueues d' jq) AND u32RegIsts (aQueues d' jq) \<noteq> 0
                  then True else irq_line (evts d)))
       \<and> (\<forall>d'. pspDevCcpMmioWrite iom proc h d offMmio cb val = Some d' \<longrightarrow>
            irq_line (evts d') =
              (let jq = unat ((offMmio - CCP_V5_Q_OFFSET h) div CCP_V5_Q_SIZE h);
                   d1 = queue_reg_store h d jq ((offMmio - CCP_V5_Q_OFFSET h) mod CCP_V5_Q_SIZE h)
                          (le32 val 0)
               in if cb = 4 \<and> CCP_V5_Q_OFFSET h \<le> offMmio
                     \<and> (offMmio - CCP_V5_Q_OFFSET h) div CCP_V5_Q_SIZE h < 2
                  then (if u32RegIen (aQueues d1 jq) \<noteq> 0 \<and> fEnabled (aQueues d1 jq)
                           \<and> u32RegIen (aQueues d' jq) AND u32RegIsts (aQueues d' jq) \<noteq> 0
                        then True else irq_line (evts d1))
                  else irq_line (evts d)))"
proof (intro conjI allI impI)
  fix d'
  assume "pspDevCcpQueueRunMaybe iom proc h d iq = Some d'"
  with fr show "irq_line (evts d') =
      (if fEnabled (aQueues d iq) \<and> u32RegIen (aQueues d' iq) AND u32RegIsts (aQueues d' iq) \<noteq> 0
       then True else irq_line (evts d))"
    by (rule queue_run_irq)
next
  show "irq_line (evts (queue_reg_store h d iq off v)) =
            (if off = CCP_V5_Q_REG_ISTS h
                \<and> off \<notin> {CCP_V5_Q_REG_CTRL h, CCP_V5_Q_REG_HEAD h, CCP_V5_Q_REG_TAIL h,
                          CCP_V5_Q_REG_STATUS h, CCP_V5_Q_REG_IEN h}
                \<and> u32RegIen (aQueues d iq) AND (u32RegIsts (aQueues d iq) AND NOT v) = 0
             then False else irq_line (evts d))"
    by (rule queue_reg_store_irq)
next
  fix buf' d'
  let ?jq = "unat ((offMmio - CCP_V5_Q_OFFSET h) div CCP_V5_Q_SIZE h)"
  assume rd: "pspDevCcpMmioRead iom proc h d offMmio cb buf = Some (buf', d')"
  show "irq_line (evts d') =
      (let jq = ?jq
       in if cb = 4 \<and> CCP_V5_Q_OFFSET h \<le> offMmio
             \<and> (offMmio - CCP_V5_Q_OFFSET h) div CCP_V5_Q_SIZE h < 2
             \<and> fEnabled (aQueues d jq)
             \<and> u32RegIen (aQueues d' jq) AND u32RegIsts (aQueues d' jq) \<noteq> 0
          then True else irq_line (evts d))"
  proof (cases "cb = 4 \<and> CCP_V5_Q_OFFSET h \<le> offMmio
             \<and> (offMmio - CCP_V5_Q_OFFSET h) div CCP_V5_Q_SIZE h < 2")
    case True
    with rd have "pspDevCcpQueueRunMaybe iom proc h d ?jq = Some d'"
      by (auto simp: pspDevCcpMmioRead_def pspDevCcpMmioQueueRegRead_def Let_def)
    from queue_run_irq [OF fr this] True show ?thesis by (simp add: Let_def)
  next
    case False
    with rd have "irq_line (evts d') = irq_line (evts d)"
      by (auto simp: pspDevCcpMmioRead_def Let_def irq_line_def split: if_splits)
    with False show ?thesis by (auto simp: Let_def)
  qed
next
  fix d'
  let ?jq = "unat ((offMmio - CCP_V5_Q_OFFSET h) div CCP_V5_Q_SIZE h)"
  let ?d1 = "queue_reg_store h d ?jq ((offMmio - CCP_V5_Q_OFFSET h) mod CCP_V5_Q_SIZE h) (le32 val 0)"
  assume wr: "pspDevCcpMmioWrite iom proc h d offMmio cb val = Some d'"
  show "irq_line (evts d') =
      (let jq = ?jq; d1 = queue_reg_store h d jq ((offMmio - CCP_V5_Q_OFFSET h) mod CCP_V5_Q_SIZE h)
                          (le32 val 0)
       in if cb = 4 \<and> CCP_V5_Q_OFFSET h \<le> offMmio
             \<and> (offMmio - CCP_V5_Q_OFFSET h) div CCP_V5_Q_SIZE h < 2
          then (if u32RegIen (aQueues d1 jq) \<noteq> 0 \<and> fEnabled (aQueues d1 jq)
                   \<and> u32RegIen (aQueues d' jq) AND u32RegIsts (aQueues d' jq) \<noteq> 0
                then True else irq_line (evts d1))
          else irq_line (evts d))"
  proof (cases "cb = 4 \<and> CCP_V5_Q_OFFSET h \<le> offMmio
             \<and> (offMmio - CCP_V5_Q_OFFSET h) div CCP_V5_Q_SIZE h < 2")
    case True
    show ?thesis
    proof (cases "u32RegIen (aQueues ?d1 ?jq) \<noteq> 0")
      case ien: True
      with wr True have "pspDevCcpQueueRunMaybe iom proc h ?d1 ?jq = Some d'"
        by (simp add: pspDevCcpMmioWrite_def pspDevCcpMmioQueueRegWrite_def Let_def)
      from queue_run_irq [OF fr this] True ien show ?thesis by (simp add: Let_def)
    next
      case False
      with wr True have "d' = ?d1"
        by (simp add: pspDevCcpMmioWrite_def pspDevCcpMmioQueueRegWrite_def Let_def)
      with True False show ?thesis by (simp add: Let_def)
    qed
  next
    case False
    with wr have "irq_line (evts d') = irq_line (evts d)"
      by (auto simp: pspDevCcpMmioWrite_def Let_def irq_line_def split: if_splits)
    with False show ?thesis by (auto simp: Let_def)
  qed
qed

theorem irq_line_steps_witness:
  "only_logs dev_run0 (snd (proc_eval dev_run0 (req_of_bytes (replicate 32 0))))
   \<and> map_option (\<lambda>d. irq_line (evts d))
        (pspDevCcpQueueRunMaybe ram_iom proc_eval ccp_v5_hdr dev_run0 0) = Some True"
proof -
  have "pspDevCcpQueueRunMaybe ram_iom proc_eval ccp_v5_hdr dev_run0 0 \<noteq> None"
    by code_simp
  then obtain d' where run: "pspDevCcpQueueRunMaybe ram_iom proc_eval ccp_v5_hdr dev_run0 0 = Some d'"
    by blast
  have "map_option (\<lambda>d. u32RegIen (aQueues d 0) AND u32RegIsts (aQueues d 0) \<noteq> 0)
        (pspDevCcpQueueRunMaybe ram_iom proc_eval ccp_v5_hdr dev_run0 0) = Some True"
    by code_simp
  then have pend: "u32RegIen (aQueues d' 0) AND u32RegIsts (aQueues d' 0) \<noteq> 0"
    unfolding run by simp
  have en: "fEnabled (aQueues dev_run0 0)"
    by (simp add: dev_run0_def q_reset_def)
  from irq_line_steps [of proc_eval ram_iom ccp_v5_hdr dev_run0 0, OF proc_eval_logs] run
  have "irq_line (evts d') =
      (if fEnabled (aQueues dev_run0 0) \<and> u32RegIen (aQueues d' 0) AND u32RegIsts (aQueues d' 0) \<noteq> 0
       then True else irq_line (evts dev_run0))"
    by blast
  with en pend have "irq_line (evts d')" by simp
  with run proc_eval_logs show ?thesis by simp
qed

subsection \<open>Reads and writes of the transfer engine\<close>

lemma take_bit_32_64_add: "take_bit 32 (take_bit 64 (a::int) + take_bit 64 b) = take_bit 32 (a + b)"
proof -
  have "take_bit 32 (take_bit 64 a + take_bit 64 b)
      = take_bit 32 (take_bit 32 (take_bit 64 a) + take_bit 32 (take_bit 64 b))"
    by (simp only: take_bit_add)
  also have "\<dots> = take_bit 32 (take_bit 32 a + take_bit 32 b)"
    by (simp add: min_def)
  also have "\<dots> = take_bit 32 (a + b)"
    by (simp only: take_bit_add)
  finally show ?thesis .
qed

lemma ucast_add_64_32: "(ucast (a + b :: 64 word) :: 32 word) = ucast a + ucast b"
  by transfer (simp add: take_bit_32_64_add)

lemma ucast_of_nat_64_32: "(ucast (of_nat i :: 64 word) :: 32 word) = of_nat i"
  by transfer (simp add: min_def)

lemma unat_add_small:
  fixes a :: "64 word"
  assumes "unat a + i < 2 ^ 64"
  shows "unat (a + of_nat i) = unat a + i"
  using assms by (simp add: unat_word_ariths unat_of_nat)

lemma of_nat_inj_word:
  "i < 2 ^ LENGTH('a) \<Longrightarrow> j < 2 ^ LENGTH('a) \<Longrightarrow> (of_nat i :: 'a::len word) = of_nat j \<Longrightarrow> i = j"
  by (simp add: word_of_nat_eq_iff take_bit_nat_eq_self)

lemma cell_of_inj:
  assumes "cell_of f (a + of_nat i) = cell_of f (a + of_nat j)" and "i < 2 ^ 32" and "j < 2 ^ 32"
  shows "i = j"
proof (cases f)
  case XferMemLsb
  with assms(1) have "unat (a + of_nat i) = unat (a + of_nat j)"
    by (simp add: cell_of_def)
  then have "a + of_nat i = a + of_nat j"
    by (simp add: word_unat_eq_iff)
  then have "(of_nat i :: 64 word) = of_nat j" by simp
  moreover have "i < 2 ^ LENGTH(64)" "j < 2 ^ LENGTH(64)" using assms(2,3) by simp_all
  ultimately show ?thesis by (rule of_nat_inj_word [rotated 2])
next
  case XferMemSys
  with assms(1) have "(ucast a :: u32) + of_nat i = ucast a + of_nat j"
    by (simp add: cell_of_def ucast_add_64_32 ucast_of_nat_64_32)
  then have "(of_nat i :: 32 word) = of_nat j" by simp
  moreover have "i < 2 ^ LENGTH(32)" "j < 2 ^ LENGTH(32)" using assms(2,3) by simp_all
  ultimately show ?thesis by (rule of_nat_inj_word [rotated 2])
next
  case XferMemLocal
  with assms(1) have "(ucast a :: u32) + of_nat i = ucast a + of_nat j"
    by (simp add: cell_of_def ucast_add_64_32 ucast_of_nat_64_32)
  then have "(of_nat i :: 32 word) = of_nat j" by simp
  moreover have "i < 2 ^ LENGTH(32)" "j < 2 ^ LENGTH(32)" using assms(2,3) by simp_all
  ultimately show ?thesis by (rule of_nat_inj_word [rotated 2])
qed

lemma mem_at_frame [simp]:
  "mem_at peek (d\<lparr>cbWrittenLast := n\<rparr>) c = mem_at peek d c"
  "mem_at peek (d\<lparr>pOsslShaCtx := x\<rparr>) c = mem_at peek d c"
  "mem_at peek (d\<lparr>evts := e\<rparr>) c = mem_at peek d c"
  by (cases c; simp)+

lemma lsb_check_nat:
  fixes a n :: "64 word"
  assumes "unat n < 2 ^ 64 - 4096" and "a < 4096 \<and> a + n \<le> 4096"
  shows "unat a + unat n \<le> 4096"
  using lsb_check_iff [OF assms(1), of a] assms(2) by simp

lemma xfer_read_mem:
  assumes ram: "iom_ram iom peek"
    and n: "unat n \<le> 4096"
    and rd: "xfer_read iom f d a n = (0, bs, d')"
  shows "bs = window peek d f a (unat n)" and "mem_at peek d' c = mem_at peek d c"
proof -
  have "bs = window peek d f a (unat n) \<and> mem_at peek d' c = mem_at peek d c"
  proof (cases f)
    case XferMemSys
    with rd show ?thesis by (simp add: xfer_read_def pspDevCcpXferMemSysRead_def)
  next
    case XferMemLsb
    with rd have ok: "a < 4096 \<and> a + n \<le> 4096"
      and bs: "bs = memcpy_from (Lsb d) (unat a) (unat n)" and d': "d' = d"
      by (auto simp: xfer_read_def pspDevCcpXferMemLsbRead_def split: if_splits)
    from n have "unat n < 2 ^ 64 - 4096" by simp
    from lsb_check_nat [OF this ok] have le: "unat a + unat n \<le> 4096" .
    have "\<And>i. i < unat n \<Longrightarrow> unat (a + of_nat i) = unat a + i"
      using le by (intro unat_add_small) simp
    then have "bs = window peek d f a (unat n)"
      unfolding bs window_def memcpy_from_def by (simp add: XferMemLsb cell_of_def)
    with d' show ?thesis by simp
  next
    case XferMemLocal
    from rd XferMemLocal obtain io' where
      r: "PSPEmuIoMgrPspAddrRead iom (hIoMgr d) (ucast a) n = (0, bs, io')"
      and d': "d' = d\<lparr>hIoMgr := io'\<rparr>"
      by (auto simp: xfer_read_def pspDevCcpXferMemLocalRead_def split: prod.splits)
    from ram r have bs: "bs = map (\<lambda>i. peek (hIoMgr d) (ucast a + of_nat i)) [0..<unat n]"
      and pk: "peek io' = peek (hIoMgr d)"
      unfolding iom_ram_def by blast+
    have "bs = window peek d f a (unat n)"
      unfolding bs window_def
      by (simp add: XferMemLocal cell_of_def ucast_add_64_32 ucast_of_nat_64_32)
    moreover have "mem_at peek d' c = mem_at peek d c"
      unfolding d' using pk by (cases c) simp_all
    ultimately show ?thesis by simp
  qed
  then show "bs = window peek d f a (unat n)" and "mem_at peek d' c = mem_at peek d c"
    by simp_all
qed

lemma cells_iff: "c \<in> cells f a n \<longleftrightarrow> (\<exists>i<n. c = cell_of f (a + of_nat i))"
  by (auto simp: cells_def)

lemma xfer_write_mem:
  assumes ram: "iom_ram iom peek"
    and n: "length bs \<le> 4096"
    and wr: "xfer_write iom f d a bs = (0, d')"
  shows "\<And>i. i < length bs \<Longrightarrow> mem_at peek d' (cell_of f (a + of_nat i)) = bs ! i"
    and "\<And>c. c \<notin> cells f a (length bs) \<Longrightarrow> mem_at peek d' c = mem_at peek d c"
proof -
  have "(\<forall>i<length bs. mem_at peek d' (cell_of f (a + of_nat i)) = bs ! i)
      \<and> (\<forall>c. c \<notin> cells f a (length bs) \<longrightarrow> mem_at peek d' c = mem_at peek d c)"
  proof (cases f)
    case XferMemSys
    with wr show ?thesis by (simp add: xfer_write_def pspDevCcpXferMemSysWrite_def)
  next
    case XferMemLsb
    with wr have ok: "a < 4096 \<and> a + of_nat (length bs) \<le> 4096"
      and d': "d' = d\<lparr>Lsb := memcpy_to (Lsb d) (unat a) bs\<rparr>"
      by (auto simp: xfer_write_def pspDevCcpXferMemLsbWrite_def Let_def split: if_splits)
    have len: "unat (of_nat (length bs) :: 64 word) = length bs"
      using n by (simp add: unat_of_nat)
    then have "unat (of_nat (length bs) :: 64 word) < 2 ^ 64 - 4096" using n by simp
    from lsb_check_nat [OF this ok] len have le: "unat a + length bs \<le> 4096" by simp
    have u: "\<And>i. i < length bs \<Longrightarrow> unat (a + of_nat i) = unat a + i"
      using le by (intro unat_add_small) simp
    have A: "\<forall>i<length bs. mem_at peek d' (cell_of f (a + of_nat i)) = bs ! i"
      unfolding d' by (simp add: XferMemLsb cell_of_def u memcpy_to_inside)
    have B: "\<forall>c. c \<notin> cells f a (length bs) \<longrightarrow> mem_at peek d' c = mem_at peek d c"
    proof (intro allI impI)
      fix c assume c: "c \<notin> cells f a (length bs)"
      show "mem_at peek d' c = mem_at peek d c"
      proof (cases c)
        case (LsbCell j)
        have "j < unat a \<or> unat a + length bs \<le> j"
        proof (rule ccontr)
          assume "\<not> (j < unat a \<or> unat a + length bs \<le> j)"
          then have j: "j - unat a < length bs" and j': "j = unat a + (j - unat a)" by linarith+
          from u [OF j] j' have "c = cell_of f (a + of_nat (j - unat a))"
            by (simp add: LsbCell XferMemLsb cell_of_def)
          with j c show False by (auto simp: cells_iff)
        qed
        then show ?thesis unfolding d' LsbCell by (simp add: memcpy_to_outside)
      next
        case (LocalCell x)
        then show ?thesis unfolding d' by simp
      qed
    qed
    from A B show ?thesis by simp
  next
    case XferMemLocal
    from wr XferMemLocal obtain io' where
      w: "PSPEmuIoMgrPspAddrWrite iom (hIoMgr d) (ucast a) bs = (0, io')"
      and d': "d' = d\<lparr>hIoMgr := io', cbWrittenLast := cbWrittenLast d + of_nat (length bs)\<rparr>"
      by (auto simp: xfer_write_def pspDevCcpXferMemLocalWrite_def split: prod.splits if_splits)
    from ram w n have pk: "\<And>x. peek io' x =
        (if unat (x - ucast a) < length bs then bs ! unat (x - ucast a) else peek (hIoMgr d) x)"
      unfolding iom_ram_def by blast
    have un: "\<And>i. i < length bs \<Longrightarrow> unat (of_nat i :: 32 word) = i"
      using n by (simp add: unat_of_nat)
    have A: "\<forall>i<length bs. mem_at peek d' (cell_of f (a + of_nat i)) = bs ! i"
      unfolding d' by (simp add: XferMemLocal cell_of_def ucast_add_64_32 ucast_of_nat_64_32 pk un)
    have B: "\<forall>c. c \<notin> cells f a (length bs) \<longrightarrow> mem_at peek d' c = mem_at peek d c"
    proof (intro allI impI)
      fix c assume c: "c \<notin> cells f a (length bs)"
      show "mem_at peek d' c = mem_at peek d c"
      proof (cases c)
        case (LsbCell j)
        then show ?thesis unfolding d' by simp
      next
        case (LocalCell x)
        have "\<not> unat (x - ucast a) < length bs"
        proof
          assume lt: "unat (x - ucast a) < length bs"
          have "x = (ucast a :: 32 word) + of_nat (unat (x - ucast a))" by simp
          then have "c = cell_of f (a + of_nat (unat (x - ucast a)))"
            by (simp add: LocalCell XferMemLocal cell_of_def ucast_add_64_32 ucast_of_nat_64_32
                del: of_nat_unat)
          with lt c show False by (auto simp: cells_iff)
        qed
        then show ?thesis unfolding d' LocalCell by (simp add: pk)
      qed
    qed
    from A B show ?thesis by simp
  qed
  then show "\<And>i. i < length bs \<Longrightarrow> mem_at peek d' (cell_of f (a + of_nat i)) = bs ! i"
    and "\<And>c. c \<notin> cells f a (length bs) \<Longrightarrow> mem_at peek d' c = mem_at peek d c"
    by simp_all
qed

lemma cells_single: "cells f a (Suc 0) = {cell_of f a}"
  by (auto simp: cells_def)

lemma cells_mono: "n \<le> m \<Longrightarrow> cells f a n \<subseteq> cells f a m"
  by (auto simp: cells_def)

lemma cells_shift: "k + n \<le> m \<Longrightarrow> cells f (a + of_nat k) n \<subseteq> cells f a m"
proof
  fix c assume le: "k + n \<le> m" and "c \<in> cells f (a + of_nat k) n"
  then obtain i where i: "i < n" and c: "c = cell_of f (a + of_nat k + of_nat i)"
    by (auto simp: cells_iff)
  have "a + of_nat k + of_nat i = a + of_nat (k + i)" by simp
  with c i le show "c \<in> cells f a m"
    by (auto simp: cells_iff intro!: exI [of _ "k + i"])
qed

lemma cell_not_in_shift:
  assumes "i < k" and "k + n \<le> 2 ^ 32"
  shows "cell_of f (a + of_nat i) \<notin> cells f (a + of_nat k) n"
proof
  assume "cell_of f (a + of_nat i) \<in> cells f (a + of_nat k) n"
  then obtain j where j: "j < n" and c: "cell_of f (a + of_nat i) = cell_of f (a + of_nat k + of_nat j)"
    by (auto simp: cells_iff)
  have "a + of_nat k + of_nat j = a + of_nat (k + j)" by simp
  with c have "cell_of f (a + of_nat i) = cell_of f (a + of_nat (k + j))" by simp
  moreover have "i < 2 ^ 32" "k + j < 2 ^ 32" using assms j by simp_all
  ultimately have "i = k + j" by (rule cell_of_inj)
  with assms(1) show False by simp
qed

lemma cells_shift_word: "unat k + n \<le> m \<Longrightarrow> cells f (a + k) n \<subseteq> cells f a m"
  using cells_shift [of "unat k" n m f a] by simp

lemma cell_not_in_shift_word:
  "i < unat k \<Longrightarrow> unat k + n \<le> 2 ^ 32 \<Longrightarrow> cell_of f (a + of_nat i) \<notin> cells f (a + k) n"
  using cell_not_in_shift [of i "unat k" n f a] by simp

lemma xfer_write_rev_mem:
  assumes ram: "iom_ram iom peek"
  shows "length bs \<le> 4096 \<Longrightarrow> xfer_write_rev iom f (base + of_nat (length bs)) d bs = (0, a', d')
    \<Longrightarrow> a' = base
      \<and> (\<forall>k<length bs. mem_at peek d' (cell_of f (base + of_nat k)) = rev bs ! k)
      \<and> (\<forall>c. c \<notin> cells f base (length bs) \<longrightarrow> mem_at peek d' c = mem_at peek d c)"
proof (induction bs arbitrary: d)
  case Nil
  then show ?case by simp
next
  case (Cons b bs)
  let ?n = "length bs"
  have a1: "base + of_nat (length (b # bs)) - 1 = base + of_nat ?n" by simp
  obtain rc1 d1 where w: "xfer_write iom f d (base + of_nat ?n) [b] = (rc1, d1)"
    by (cases "xfer_write iom f d (base + of_nat ?n) [b]") auto
  from Cons.prems(2) w have rc1: "rc1 = 0"
    by (auto simp: a1 split: if_splits)
  with Cons.prems(2) w have rest: "xfer_write_rev iom f (base + of_nat ?n) d1 bs = (0, a', d')"
    by (simp add: a1)
  from w rc1 have w0: "xfer_write iom f d (base + of_nat ?n) [b] = (0, d1)" by simp
  have l1: "length [b] \<le> 4096" by simp
  from xfer_write_mem(1) [OF ram l1 w0, of 0]
  have new: "mem_at peek d1 (cell_of f (base + of_nat ?n)) = b" by simp
  have old: "\<And>c. c \<noteq> cell_of f (base + of_nat ?n) \<Longrightarrow> mem_at peek d1 c = mem_at peek d c"
    using xfer_write_mem(2) [OF ram l1 w0] by (simp add: cells_single)
  from Cons.prems(1) have len: "?n \<le> 4096" by simp
  from Cons.IH [OF len rest]
  have a': "a' = base"
    and ih1: "\<And>k. k < ?n \<Longrightarrow> mem_at peek d' (cell_of f (base + of_nat k)) = rev bs ! k"
    and ih2: "\<And>c. c \<notin> cells f base ?n \<Longrightarrow> mem_at peek d' c = mem_at peek d1 c"
    by blast+
  have top: "cell_of f (base + of_nat ?n) \<notin> cells f base ?n"
  proof
    assume "cell_of f (base + of_nat ?n) \<in> cells f base ?n"
    then obtain j where j: "j < ?n" and "cell_of f (base + of_nat ?n) = cell_of f (base + of_nat j)"
      by (auto simp: cells_iff)
    moreover have "?n < 2 ^ 32" "j < 2 ^ 32" using len j by simp_all
    ultimately have "?n = j" by (auto dest: cell_of_inj)
    with j show False by simp
  qed
  have A: "\<forall>k<length (b # bs). mem_at peek d' (cell_of f (base + of_nat k)) = rev (b # bs) ! k"
  proof (intro allI impI)
    fix k assume k: "k < length (b # bs)"
    show "mem_at peek d' (cell_of f (base + of_nat k)) = rev (b # bs) ! k"
    proof (cases "k < ?n")
      case True
      with ih1 [OF True] show ?thesis by (simp add: nth_append)
    next
      case False
      with k have k: "k = ?n" by simp
      from ih2 [OF top] new show ?thesis by (simp add: k nth_append)
    qed
  qed
  have B: "\<forall>c. c \<notin> cells f base (length (b # bs)) \<longrightarrow> mem_at peek d' c = mem_at peek d c"
  proof (intro allI impI)
    fix c assume c: "c \<notin> cells f base (length (b # bs))"
    then have c1: "c \<notin> cells f base ?n" and c2: "c \<noteq> cell_of f (base + of_nat ?n)"
      by (auto simp: cells_iff less_Suc_eq)
    from ih2 [OF c1] old [OF c2] show "mem_at peek d' c = mem_at peek d c" by simp
  qed
  from a' A B show ?case by blast
qed

lemma XferCtxRead_ok:
  assumes "pspDevCcpXferCtxRead iom c d n False = (0, bs, c', d')"
  shows "n \<noteq> 0" and "n \<le> cbReadLeft c"
    and "xfer_read iom (pfnRead c) d (CcpAddrSrc c) n = (0, bs, d')"
    and "c' = c\<lparr>cbReadLeft := cbReadLeft c - n, CcpAddrSrc := CcpAddrSrc c + n\<rparr>"
  using assms
  by (auto simp: pspDevCcpXferCtxRead_def Let_def min_def split: if_splits prod.splits)

lemma XferCtxWrite_ok:
  assumes "pspDevCcpXferCtxWrite iom c d bs n False = (0, c', d')" and "\<not> fWriteRev c"
  shows "n \<noteq> 0" and "n \<le> cbWriteLeft c"
    and "xfer_write iom (pfnWrite c) d (CcpAddrDst c) (take (unat n) bs) = (0, d')"
    and "c' = c\<lparr>cbWriteLeft := cbWriteLeft c - n, CcpAddrDst := CcpAddrDst c + n\<rparr>"
  using assms
  by (auto simp: pspDevCcpXferCtxWrite_def Let_def min_def split: if_splits prod.splits)

lemma XferCtxWrite_rev_ok:
  assumes "pspDevCcpXferCtxWrite iom c d bs n False = (0, c', d')" and "fWriteRev c"
  shows "n \<noteq> 0" and "n \<le> cbWriteLeft c"
    and "\<exists>a'. xfer_write_rev iom (pfnWrite c) (CcpAddrDst c) d (take (unat n) bs) = (0, a', d')"
  using assms
  by (auto simp: pspDevCcpXferCtxWrite_def Let_def min_def split: if_splits prod.splits)

lemma window_length [simp]: "length (window peek d f a n) = n"
  by (simp add: window_def)

lemma window_nth [simp]: "i < n \<Longrightarrow> window peek d f a n ! i = mem_at peek d (cell_of f (a + of_nat i))"
  by (simp add: window_def)

lemma min_4096_facts:
  fixes n :: "64 word"
  assumes "n \<noteq> 0"
  shows "unat (min n 4096) \<le> 4096" and "unat (min n 4096) \<le> unat n" and "0 < unat (min n 4096)"
    and "unat (n - min n 4096) = unat n - unat (min n 4096)"
    and "unat n \<le> 4096 \<Longrightarrow> min n 4096 = n"
proof -
  show le: "unat (min n 4096) \<le> unat n" by (simp add: word_le_nat_alt [symmetric])
  have "min n 4096 \<le> 4096" by simp
  then show "unat (min n 4096) \<le> 4096" by (simp add: word_le_nat_alt)
  have "min n 4096 \<noteq> 0" using assms by (simp add: min_def)
  then show "0 < unat (min n 4096)" by (simp add: unat_gt_0)
  have "min n 4096 \<le> n" by simp
  then show "unat (n - min n 4096) = unat n - unat (min n 4096)" by (rule unat_sub)
  show "min n 4096 = n" if "unat n \<le> 4096"
    using that by (simp add: min_def word_le_nat_alt)
qed

lemma passthru_loop_copy:
  "iom_ram iom peek \<Longrightarrow> passthru_loop iom c n d = (0, c', d') \<Longrightarrow> \<not> fWriteRev c
    \<Longrightarrow> cbReadLeft c = n \<Longrightarrow> cbWriteLeft c = n \<Longrightarrow> unat n < 2 ^ 32
    \<Longrightarrow> unat n \<le> 4096
        \<or> cells (pfnWrite c) (CcpAddrDst c) (unat n) \<inter> cells (pfnRead c) (CcpAddrSrc c) (unat n) = {}
    \<Longrightarrow> (\<forall>i<unat n. mem_at peek d' (cell_of (pfnWrite c) (CcpAddrDst c + of_nat i))
                      = mem_at peek d (cell_of (pfnRead c) (CcpAddrSrc c + of_nat i)))
      \<and> (\<forall>x. x \<notin> cells (pfnWrite c) (CcpAddrDst c) (unat n) \<longrightarrow> mem_at peek d' x = mem_at peek d x)"
proof (induction iom c n d rule: passthru_loop.induct)
  case (1 iom c n d)
  note ram = "1.prems"(1)
  note run = "1.prems"(2) and nr = "1.prems"(3) and rl = "1.prems"(4) and wl = "1.prems"(5)
    and n32 = "1.prems"(6) and dj = "1.prems"(7)
  let ?rf = "pfnRead c" and ?wf = "pfnWrite c" and ?src = "CcpAddrSrc c" and ?dst = "CcpAddrDst c"
  show ?case
  proof (cases "n = 0")
    case True
    with run have "d' = d" by (simp add: passthru_loop.simps [of iom c 0 d])
    with True show ?thesis by simp
  next
    case nz: False
    let ?m = "min n 4096"
    note mf = min_4096_facts [OF nz]
    obtain rc1 bs c1 d1 where r: "pspDevCcpXferCtxRead iom c d ?m False = (rc1, bs, c1, d1)"
      by (cases "pspDevCcpXferCtxRead iom c d ?m False") auto
    from run nz r have rc1: "rc1 = 0"
      by (auto simp: passthru_loop.simps [of iom c n d] split: if_splits prod.splits)
    obtain rc2 c2 d2 where w: "pspDevCcpXferCtxWrite iom c1 d1 bs ?m False = (rc2, c2, d2)"
      by (cases "pspDevCcpXferCtxWrite iom c1 d1 bs ?m False") auto
    from run nz r rc1 w have rc2: "rc2 = 0"
      by (auto simp: passthru_loop.simps [of iom c n d] split: if_splits)
    from run nz r rc1 w rc2 have rest: "passthru_loop iom c2 (n - ?m) d2 = (0, c', d')"
      by (simp add: passthru_loop.simps [of iom c n d])
    from r rc1 have r0: "pspDevCcpXferCtxRead iom c d ?m False = (0, bs, c1, d1)" by simp
    from w rc2 have w0: "pspDevCcpXferCtxWrite iom c1 d1 bs ?m False = (0, c2, d2)" by simp
    note rk = XferCtxRead_ok [OF r0]
    have c1: "c1 = c\<lparr>cbReadLeft := n - ?m, CcpAddrSrc := ?src + ?m\<rparr>"
      using rk(4) rl by simp
    have bs: "bs = window peek d ?rf ?src (unat ?m)" and m1: "\<And>x. mem_at peek d1 x = mem_at peek d x"
      using xfer_read_mem [OF ram mf(1) rk(3)] by simp_all
    have nr1: "\<not> fWriteRev c1" using nr c1 by simp
    note wk = XferCtxWrite_ok [OF w0 nr1]
    have tk: "take (unat ?m) bs = bs" by (simp add: bs)
    have w1: "xfer_write iom ?wf d1 ?dst bs = (0, d2)"
      using wk(3) c1 tk by simp
    have c2: "c2 = c\<lparr>cbReadLeft := n - ?m, CcpAddrSrc := ?src + ?m,
                    cbWriteLeft := n - ?m, CcpAddrDst := ?dst + ?m\<rparr>"
      using wk(4) c1 wl by simp
    have lb: "length bs \<le> 4096" "length bs = unat ?m" using mf(1) by (simp_all add: bs)
    have new: "\<And>i. i < unat ?m \<Longrightarrow> mem_at peek d2 (cell_of ?wf (?dst + of_nat i))
        = mem_at peek d (cell_of ?rf (?src + of_nat i))"
      using xfer_write_mem(1) [OF ram lb(1) w1] by (simp add: lb(2)) (simp add: bs)
    have old: "\<And>x. x \<notin> cells ?wf ?dst (unat ?m) \<Longrightarrow> mem_at peek d2 x = mem_at peek d x"
      using xfer_write_mem(2) [OF ram lb(1) w1] m1 by (simp add: lb(2))
    have um: "(of_nat (unat ?m) :: 64 word) = ?m" by simp
    have sub: "unat ?m + unat (n - ?m) = unat n" using mf(2,4) by simp
    have dj2: "unat (n - ?m) \<le> 4096
        \<or> cells (pfnWrite c2) (CcpAddrDst c2) (unat (n - ?m))
            \<inter> cells (pfnRead c2) (CcpAddrSrc c2) (unat (n - ?m)) = {}"
    proof (cases "unat n \<le> 4096")
      case True
      then show ?thesis using mf(5) by simp
    next
      case False
      with dj have d0: "cells ?wf ?dst (unat n) \<inter> cells ?rf ?src (unat n) = {}" by simp
      have "cells ?wf (?dst + ?m) (unat (n - ?m)) \<subseteq> cells ?wf ?dst (unat n)"
        "cells ?rf (?src + ?m) (unat (n - ?m)) \<subseteq> cells ?rf ?src (unat n)"
        using sub by (simp_all add: cells_shift_word)
      with d0 show ?thesis unfolding c2 by auto
    qed
    have n32': "unat (n - ?m) < 2 ^ 32" using n32 sub by linarith
    from "1.IH" [OF nz r [symmetric] refl refl rc1 w [symmetric] refl rc2 ram rest _ _ _ n32' dj2]
    have ih1: "\<And>j. j < unat (n - ?m) \<Longrightarrow>
          mem_at peek d' (cell_of ?wf (?dst + ?m + of_nat j))
            = mem_at peek d2 (cell_of ?rf (?src + ?m + of_nat j))"
      and ih2: "\<And>x. x \<notin> cells ?wf (?dst + ?m) (unat (n - ?m)) \<Longrightarrow> mem_at peek d' x = mem_at peek d2 x"
      using nr by (simp_all add: c2)
    have shiftW: "cells ?wf (?dst + ?m) (unat (n - ?m)) \<subseteq> cells ?wf ?dst (unat n)"
      using sub by (simp add: cells_shift_word)
    have A: "\<forall>i<unat n. mem_at peek d' (cell_of ?wf (?dst + of_nat i))
                      = mem_at peek d (cell_of ?rf (?src + of_nat i))"
    proof (intro allI impI)
      fix i assume i: "i < unat n"
      show "mem_at peek d' (cell_of ?wf (?dst + of_nat i)) = mem_at peek d (cell_of ?rf (?src + of_nat i))"
      proof (cases "i < unat ?m")
        case True
        have "cell_of ?wf (?dst + of_nat i) \<notin> cells ?wf (?dst + ?m) (unat (n - ?m))"
          using True sub n32 by (intro cell_not_in_shift_word) simp_all
        then have "mem_at peek d' (cell_of ?wf (?dst + of_nat i)) = mem_at peek d2 (cell_of ?wf (?dst + of_nat i))"
          using ih2 by simp
        with new [OF True] show ?thesis by simp
      next
        case False
        define j where "j = i - unat ?m"
        with False i sub have j: "j < unat (n - ?m)" and ij: "i = unat ?m + j" by simp_all
        have e1: "?dst + of_nat i = ?dst + ?m + of_nat j" and e2: "?src + of_nat i = ?src + ?m + of_nat j"
          by (simp_all add: ij um)
        from j have big: "\<not> unat n \<le> 4096" using mf(5) by (cases "unat n \<le> 4096") simp_all
        with dj have d0: "cells ?wf ?dst (unat n) \<inter> cells ?rf ?src (unat n) = {}" by simp
        have "cell_of ?rf (?src + of_nat i) \<in> cells ?rf ?src (unat n)"
          using i by (auto simp: cells_iff)
        with d0 have "cell_of ?rf (?src + of_nat i) \<notin> cells ?wf ?dst (unat n)" by blast
        with cells_mono [OF mf(2), of ?wf ?dst]
        have "cell_of ?rf (?src + of_nat i) \<notin> cells ?wf ?dst (unat ?m)" by blast
        from old [OF this] ih1 [OF j] show ?thesis by (simp add: e1 e2)
      qed
    qed
    have B: "\<forall>x. x \<notin> cells ?wf ?dst (unat n) \<longrightarrow> mem_at peek d' x = mem_at peek d x"
    proof (intro allI impI)
      fix x assume x: "x \<notin> cells ?wf ?dst (unat n)"
      with shiftW have "x \<notin> cells ?wf (?dst + ?m) (unat (n - ?m))" by blast
      moreover from x cells_mono [OF mf(2), of ?wf ?dst] have "x \<notin> cells ?wf ?dst (unat ?m)" by blast
      ultimately show "mem_at peek d' x = mem_at peek d x" using ih2 old by simp
    qed
    from A B show ?thesis by simp
  qed
qed

end
